theory Spec2Isabelle
  imports Complex_Main "HOL-Library.Log_Nat"
begin

section \<open>Data model (types.ts)\<close>

text \<open>
  JavaScript numbers that hold counts and millisecond timestamps are modelled as
  integers: below \<open>2^53\<close> the sums and differences of such doubles are exact. A quotient
  or product that the code rounds to a double (\<open>totalCurrent / totalTarget\<close>,
  \<open>elapsed / totalDuration\<close>, \<open>(deadline - now) / 86400000\<close>) is rounded here too, by
  \<open>fl\<close> below.
  An optional field (\<open>deadline?: number\<close>) is an \<open>option\<close>; an optional boolean
  that the code only ever reads through \<open>!\<close> (\<open>archived\<close>, \<open>deleted\<close>) is a \<open>bool\<close>
  with \<open>undefined\<close> read as \<open>False\<close>.
\<close>

datatype GoalLevel = EASY | MEDIUM | HARD

datatype GoalPriority = LOW | MEDIUM_P | HIGH

record SubTask =
  id_t :: string
  text_t :: string
  completed_t :: bool
  currentProgress :: int
  targetProgress :: int
  level_t :: GoalLevel
  priority_t :: GoalPriority
  deadline_t :: "int option"
  tip :: "string option"
  deleted :: bool

record Goal =
  id_g :: string
  title :: string
  description :: string
  level :: GoalLevel
  priority :: GoalPriority
  area :: string
  deadline :: "int option"
  estimatedCost :: int
  subTasks :: "SubTask list"
  completed :: bool
  createdAt :: int
  completedAt :: "int option"
  lastInteractionAt :: int
  pinned :: bool
  order_g :: int
  achievedMilestones :: "int list"
  archived :: bool

section \<open>Progress percentage (renderGoalCard)\<close>

text \<open>
  A finite double is a rational number. \<open>fl x\<close> is the double nearest to \<open>x\<close> (IEEE 754
  binary64: 53 significant bits, round to nearest, ties to the even significand), which
  is what \<open>/\<close> and \<open>*\<close> return for the exact quotient or product \<open>x\<close>. \<open>ilog2 a\<close> is
  \<open>\<lfloor>log\<^sub>2 a\<rfloor>\<close> for \<open>a > 0\<close>. The exponent range is left unbounded: with integers below
  \<open>2^53\<close> no value computed here is subnormal or overflows.
\<close>

definition roundHalfEven :: "rat \<Rightarrow> int" where
  "roundHalfEven m =
     (let f = \<lfloor>m\<rfloor>; r = m - of_int f
      in if r < 1 / 2 then f else if 1 / 2 < r then f + 1 else if even f then f else f + 1)"

definition ilog2 :: "rat \<Rightarrow> int" where
  "ilog2 a =
     (let k = bitlen (fst (quotient_of a)) - bitlen (snd (quotient_of a))
      in if 2 powi k \<le> a then k else k - 1)"

definition fl :: "rat \<Rightarrow> rat" where
  "fl x =
     (if x = 0 then 0
      else (let e = ilog2 \<bar>x\<bar> - 52
            in sgn x * of_int (roundHalfEven (\<bar>x\<bar> / 2 powi e)) * 2 powi e))"

text \<open>\<open>Math.round\<close> of a double: the nearest integer, a tie going up.\<close>

definition Math_round :: "rat \<Rightarrow> int" where
  "Math_round x = \<lfloor>x + 1 / 2\<rfloor>"

text \<open>
  \<open>!goal.deadline\<close> is true for a missing deadline and for the timestamp \<open>0\<close>.
\<close>

definition truthy :: "int option \<Rightarrow> bool" where
  "truthy d = (case d of None \<Rightarrow> False | Some n \<Rightarrow> n \<noteq> 0)"

definition activeSubTasks :: "Goal \<Rightarrow> SubTask list" where
  "activeSubTasks goal = filter (\<lambda>t. \<not> deleted t) (subTasks goal)"

definition totalTarget :: "Goal \<Rightarrow> int" where
  "totalTarget goal = foldl (\<lambda>acc t. acc + max 1 (targetProgress t)) 0 (activeSubTasks goal)"

definition totalCurrent :: "Goal \<Rightarrow> int" where
  "totalCurrent goal = foldl (\<lambda>acc t. acc + currentProgress t) 0 (activeSubTasks goal)"

text \<open>
  The value of \<open>progressPct\<close> in \<open>renderGoalCard\<close>; \<open>now\<close> is what \<open>Date.now()\<close> returns,
  and the literal \<open>0.0001\<close> is the double \<open>fl (1 / 10000)\<close>.
\<close>

definition progressPct :: "int \<Rightarrow> Goal \<Rightarrow> int" where
  "progressPct now goal =
     (if completed goal then 100
      else if totalTarget goal > 0 then
        (let completionRatio = fl (of_int (totalCurrent goal) / of_int (totalTarget goal))
         in if \<not> truthy (deadline goal) then Math_round (fl (completionRatio * 100))
            else
              (let start = createdAt goal;
                   end' = (case deadline goal of Some d \<Rightarrow> d | None \<Rightarrow> 0);
                   totalDuration = max 1 (end' - start);
                   elapsed = max 1 (now - start);
                   timeRatio = max (fl (1 / 10000))
                                   (min 1 (fl (of_int elapsed / of_int totalDuration)))
               in Math_round (fl (fl (completionRatio / timeRatio) * 100))))
      else 0)"

definition cappedProgressPct :: "int \<Rightarrow> Goal \<Rightarrow> int" where
  "cappedProgressPct now goal = min 100 (progressPct now goal)"

section \<open>Grouped view (activeGoalsByArea)\<close>

datatype SortOption = Newest | Priority | Difficulty | Deadline | Reset

datatype StatusValue = Completed | Active

text \<open>
  The state \<open>activeSort\<close> is \<open>{type, value} | null\<close>; the click handlers that set it pair
  each \<open>type\<close> with a value of the matching enumeration.
\<close>

datatype ActiveSort =
  ByDifficulty GoalLevel
| ByPriority GoalPriority
| ByStatus StatusValue
| ByArea string

datatype js_error = TypeError | AdvisoryFailure

definition priorityScore :: "GoalPriority \<Rightarrow> int" where
  "priorityScore p = (if p = HIGH then 3 else if p = MEDIUM_P then 2 else 1)"

definition difficultyScore :: "GoalLevel \<Rightarrow> int" where
  "difficultyScore d = (if d = HARD then 3 else if d = MEDIUM then 2 else 1)"

text \<open>The value assigned to \<open>matchA\<close> (and, for \<open>b\<close>, to \<open>matchB\<close>) by the filter chain.\<close>

definition matchFilter :: "ActiveSort \<Rightarrow> Goal \<Rightarrow> bool" where
  "matchFilter activeSort a =
     (case activeSort of
        ByDifficulty v \<Rightarrow> level a = v
      | ByPriority v \<Rightarrow> priority a = v
      | ByStatus v \<Rightarrow> completed a = (v = Completed)
      | ByArea v \<Rightarrow> area a = v)"

text \<open>
  \<open>(a.deadline || Infinity) - (b.deadline || Infinity)\<close>: only the sign of a comparator's
  result is read by \<open>Array.prototype.sort\<close>, and \<open>Infinity - Infinity\<close> is \<open>NaN\<close>, which the
  sort reads as \<open>+0\<close>.
\<close>

definition deadlineDiff :: "Goal \<Rightarrow> Goal \<Rightarrow> int" where
  "deadlineDiff a b =
     (case (if truthy (deadline a) then deadline a else None,
            if truthy (deadline b) then deadline b else None) of
        (Some x, Some y) \<Rightarrow> x - y
      | (Some x, None) \<Rightarrow> - 1
      | (None, Some y) \<Rightarrow> 1
      | (None, None) \<Rightarrow> 0)"

text \<open>The comparator passed to \<open>grouped[area].sort\<close>.\<close>

definition compareGoals :: "ActiveSort option \<Rightarrow> SortOption \<Rightarrow> Goal \<Rightarrow> Goal \<Rightarrow> int" where
  "compareGoals activeSort sortBy a b =
     (if (case activeSort of None \<Rightarrow> False
          | Some f \<Rightarrow> matchFilter f a \<noteq> matchFilter f b)
      then (if (case activeSort of None \<Rightarrow> False | Some f \<Rightarrow> matchFilter f a) then - 1 else 1)
      else if sortBy = Newest then createdAt b - createdAt a
      else if sortBy = Priority then priorityScore (priority b) - priorityScore (priority a)
      else if sortBy = Difficulty then difficultyScore (level b) - difficultyScore (level a)
      else if sortBy = Deadline then deadlineDiff a b
      else if completed a \<noteq> completed b then (if completed a then 1 else - 1)
      else if pinned a \<noteq> pinned b then (if pinned a then - 1 else 1)
      else order_g a - order_g b)"

text \<open>
  \<open>Array.prototype.sort(cmp)\<close> is stable; for a comparator that is a consistent ordering
  the result is the one stable insertion sort computes.
\<close>

fun insort_cmp :: "('a \<Rightarrow> 'a \<Rightarrow> int) \<Rightarrow> 'a \<Rightarrow> 'a list \<Rightarrow> 'a list" where
  "insort_cmp cmp x [] = [x]"
| "insort_cmp cmp x (y # ys) = (if cmp x y \<le> 0 then x # y # ys else y # insort_cmp cmp x ys)"

definition sort_cmp :: "('a \<Rightarrow> 'a \<Rightarrow> int) \<Rightarrow> 'a list \<Rightarrow> 'a list" where
  "sort_cmp cmp xs = foldr (insort_cmp cmp) xs []"

text \<open>
  \<open>String.prototype.includes\<close>. \<open>String.prototype.toLowerCase\<close> follows the Unicode case
  mappings of the runtime; it is a parameter of the search test and of the view.
\<close>

fun includes_s :: "string \<Rightarrow> string \<Rightarrow> bool" where
  "includes_s [] sub = (sub = [])"
| "includes_s (c # cs) sub = (take (length sub) (c # cs) = sub \<or> includes_s cs sub)"

definition matchesQuery :: "(string \<Rightarrow> string) \<Rightarrow> string \<Rightarrow> Goal \<Rightarrow> bool" where
  "matchesQuery toLowerCase searchQuery goal =
     (searchQuery = [] \<or> includes_s (toLowerCase (title goal)) (toLowerCase searchQuery)
      \<or> includes_s (toLowerCase (description goal)) (toLowerCase searchQuery))"

text \<open>
  \<open>grouped\<close> is a plain object, so \<open>grouped[goal.area]\<close> also finds the properties every
  object inherits from \<open>Object.prototype\<close>. Each of them is a function or an object:
  truthy, and without a \<open>push\<close> method.
\<close>

definition objectPrototypeKeys :: "string list" where
  "objectPrototypeKeys =
     [''constructor'', ''__defineGetter__'', ''__defineSetter__'', ''hasOwnProperty'',
      ''__lookupGetter__'', ''__lookupSetter__'', ''isPrototypeOf'', ''propertyIsEnumerable'',
      ''toString'', ''valueOf'', ''__proto__'', ''toLocaleString'']"

text \<open>\<open>areaOrder.reduce((acc, area) => ({ ...acc, [area]: [] }), {})\<close>\<close>

definition emptyBuckets :: "string list \<Rightarrow> (string \<rightharpoonup> Goal list)" where
  "emptyBuckets areaOrder = foldl (\<lambda>acc area. acc(area \<mapsto> [])) Map.empty areaOrder"

text \<open>
  One round of the \<open>forEach\<close> over the non-archived goals:
  \<open>if (grouped[goal.area]) grouped[goal.area].push(goal)\<close> behind the search test.
\<close>

definition pushGoal ::
  "(string \<Rightarrow> string) \<Rightarrow> string \<Rightarrow> (string \<rightharpoonup> Goal list) \<Rightarrow> Goal
     \<Rightarrow> js_error + (string \<rightharpoonup> Goal list)" where
  "pushGoal toLowerCase searchQuery grouped goal =
     (if matchesQuery toLowerCase searchQuery goal then
        (case grouped (area goal) of
           Some bucket \<Rightarrow> Inr (grouped(area goal \<mapsto> bucket @ [goal]))
         | None \<Rightarrow> if area goal \<in> set objectPrototypeKeys then Inl TypeError else Inr grouped)
      else Inr grouped)"

fun pushGoals ::
  "(string \<Rightarrow> string) \<Rightarrow> string \<Rightarrow> (string \<rightharpoonup> Goal list) \<Rightarrow> Goal list
     \<Rightarrow> js_error + (string \<rightharpoonup> Goal list)" where
  "pushGoals toLowerCase searchQuery grouped [] = Inr grouped"
| "pushGoals toLowerCase searchQuery grouped (goal # rest) =
     (case pushGoal toLowerCase searchQuery grouped goal of
        Inl e \<Rightarrow> Inl e
      | Inr grouped' \<Rightarrow> pushGoals toLowerCase searchQuery grouped' rest)"

definition activeGoalsByArea ::
  "(string \<Rightarrow> string) \<Rightarrow> Goal list \<Rightarrow> string list \<Rightarrow> string \<Rightarrow> ActiveSort option
     \<Rightarrow> SortOption \<Rightarrow> js_error + (string \<rightharpoonup> Goal list)" where
  "activeGoalsByArea toLowerCase goals areaOrder searchQuery activeSort sortBy =
     (case pushGoals toLowerCase searchQuery (emptyBuckets areaOrder) (filter (\<lambda>g. \<not> archived g) goals) of
        Inl e \<Rightarrow> Inl e
      | Inr grouped \<Rightarrow>
          Inr (\<lambda>area. map_option (sort_cmp (compareGoals activeSort sortBy)) (grouped area)))"

section \<open>Notification scanner (checkSystems)\<close>

datatype NotificationType = NUDGE | DEADLINE

record AppNotification =
  id_n :: string
  type_n :: NotificationType
  title_n :: string
  message :: string
  timestamp :: int

text \<open>
  \<open>String.prototype.trim\<close>. A \<open>string\<close> holds the UTF-8 bytes of the text, so a white
  space or line terminator of ECMAScript is one of these byte sequences: U+0009 to
  U+000D, U+0020, U+00A0, U+1680, U+2000 to U+200A, U+2028, U+2029, U+202F, U+205F,
  U+3000 and U+FEFF.
\<close>

definition whiteSpace :: "string list" where
  "whiteSpace =
     [[CHR 0x09], [CHR 0x0A], [CHR 0x0B], [CHR 0x0C], [CHR 0x0D], [CHR 0x20],
      [CHR 0xC2, CHR 0xA0], [CHR 0xE1, CHR 0x9A, CHR 0x80],
      [CHR 0xE2, CHR 0x80, CHR 0x80], [CHR 0xE2, CHR 0x80, CHR 0x81],
      [CHR 0xE2, CHR 0x80, CHR 0x82], [CHR 0xE2, CHR 0x80, CHR 0x83],
      [CHR 0xE2, CHR 0x80, CHR 0x84], [CHR 0xE2, CHR 0x80, CHR 0x85],
      [CHR 0xE2, CHR 0x80, CHR 0x86], [CHR 0xE2, CHR 0x80, CHR 0x87],
      [CHR 0xE2, CHR 0x80, CHR 0x88], [CHR 0xE2, CHR 0x80, CHR 0x89],
      [CHR 0xE2, CHR 0x80, CHR 0x8A], [CHR 0xE2, CHR 0x80, CHR 0xA8],
      [CHR 0xE2, CHR 0x80, CHR 0xA9], [CHR 0xE2, CHR 0x80, CHR 0xAF],
      [CHR 0xE2, CHR 0x81, CHR 0x9F], [CHR 0xE3, CHR 0x80, CHR 0x80],
      [CHR 0xEF, CHR 0xBB, CHR 0xBF]]"

text \<open>The length of the sequence of \<open>ws\<close> that \<open>s\<close> starts with, \<open>0\<close> when there is none.\<close>

definition leadLength :: "string list \<Rightarrow> string \<Rightarrow> nat" where
  "leadLength ws s =
     (case filter (\<lambda>w. take (length w) s = w) ws of [] \<Rightarrow> 0 | w # _ \<Rightarrow> length w)"

text \<open>
  Dropping the leading sequences of \<open>ws\<close>, one per round; a string of \<open>n\<close> bytes needs at
  most \<open>n\<close> rounds.
\<close>

fun dropLeading :: "nat \<Rightarrow> string list \<Rightarrow> string \<Rightarrow> string" where
  "dropLeading 0 ws s = s"
| "dropLeading (Suc n) ws s =
     (if leadLength ws s = 0 then s else dropLeading n ws (drop (leadLength ws s) s))"

definition trimStart :: "string \<Rightarrow> string" where
  "trimStart s = dropLeading (length s) whiteSpace s"

definition trimEnd :: "string \<Rightarrow> string" where
  "trimEnd s = rev (dropLeading (length s) (map rev whiteSpace) (rev s))"

definition trim :: "string \<Rightarrow> string" where
  "trim s = trimEnd (trimStart s)"

text \<open>
  \<open>getFriendlyNudge\<close> (geminiService.ts) awaits \<open>ai.models.generateContent\<close> with no
  \<open>try\<close> around it: a rejected request rejects the nudge. The request is a parameter,
  from the goal title and area that fill the prompt to the response text or the failure.
\<close>

definition getFriendlyNudge ::
  "(string \<Rightarrow> string \<Rightarrow> js_error + string option) \<Rightarrow> string \<Rightarrow> string \<Rightarrow> js_error + string" where
  "getFriendlyNudge generateContent goalTitle area' =
     (case generateContent goalTitle area' of
        Inl e \<Rightarrow> Inl e
      | Inr response \<Rightarrow> Inr (trim (case response of None \<Rightarrow> [] | Some t \<Rightarrow> t)))"

text \<open>The body of \<open>goals.forEach\<close> in \<open>checkSystems\<close>: what one goal pushes onto \<open>newAlerts\<close>.\<close>

definition deadlineAlert :: "int \<Rightarrow> Goal \<Rightarrow> AppNotification list" where
  "deadlineAlert now g =
     (if \<not> completed g \<and> \<not> archived g \<and> truthy (deadline g) then
        (let daysLeft = fl (of_int ((case deadline g of Some d \<Rightarrow> d | None \<Rightarrow> 0) - now)
                            / 86400000)
         in if daysLeft > 0 \<and> daysLeft \<le> 3 then
              [\<lparr>id_n = ''deadline-'' @ id_g g, type_n = DEADLINE,
                title_n = ''Deadline approaching'',
                message = ''Your goal '' @ [CHR 0x22] @ title g @ [CHR 0x22]
                          @ '' ends soon. Take a small step today!'',
                timestamp = now\<rparr>]
            else [])
      else [])"

definition deadlineAlerts :: "int \<Rightarrow> Goal list \<Rightarrow> AppNotification list" where
  "deadlineAlerts now goals = foldl (\<lambda>newAlerts g. newAlerts @ deadlineAlert now g) [] goals"

definition fourDaysMs :: int where
  "fourDaysMs = 4 * 24 * 60 * 60 * 1000"

text \<open>\<open>goals.filter(...).sort(...)[0]\<close>, which is \<open>undefined\<close> on an empty array.\<close>

definition neglectedGoal :: "Goal list \<Rightarrow> Goal option" where
  "neglectedGoal goals =
     (case sort_cmp (\<lambda>a b. lastInteractionAt a - lastInteractionAt b)
             (filter (\<lambda>g. \<not> completed g \<and> \<not> archived g) goals) of
        [] \<Rightarrow> None
      | g # _ \<Rightarrow> Some g)"

text \<open>
  \<open>newAlerts\<close> as it stands when \<open>checkSystems\<close> reaches \<open>if (newAlerts.length > 0)\<close>;
  \<open>Inl\<close> when the awaited nudge rejected and the function left before that line.
\<close>

definition newAlerts ::
  "(string \<Rightarrow> string \<Rightarrow> js_error + string option) \<Rightarrow> int \<Rightarrow> Goal list
     \<Rightarrow> js_error + AppNotification list" where
  "newAlerts generateContent now goals =
     (let alerts = deadlineAlerts now goals in
      case neglectedGoal goals of
        None \<Rightarrow> Inr alerts
      | Some g \<Rightarrow>
          if now - lastInteractionAt g > fourDaysMs then
            (case getFriendlyNudge generateContent (title g) (area g) of
               Inl e \<Rightarrow> Inl e
             | Inr nudgeMessage \<Rightarrow>
                 Inr (alerts @ [\<lparr>id_n = ''nudge-'' @ id_g g, type_n = NUDGE,
                                 title_n = ''A gentle nudge'', message = nudgeMessage,
                                 timestamp = now\<rparr>]))
          else Inr alerts)"

record ScanState =
  notifications :: "AppNotification list"
  activeToast :: "AppNotification option"

text \<open>The updater passed to \<open>setNotifications\<close>, with the toast it raises.\<close>

definition appendFresh :: "AppNotification list \<Rightarrow> ScanState \<Rightarrow> ScanState" where
  "appendFresh alerts st =
     (let existingIds = set (map id_n (notifications st));
          fresh = filter (\<lambda>a. id_n a \<notin> existingIds) alerts
      in \<lparr>notifications = fresh @ notifications st,
          activeToast = (case fresh of [] \<Rightarrow> activeToast st | a # _ \<Rightarrow> Some a)\<rparr>)"

definition checkSystems ::
  "(string \<Rightarrow> string \<Rightarrow> js_error + string option) \<Rightarrow> int \<Rightarrow> Goal list \<Rightarrow> ScanState
     \<Rightarrow> js_error + ScanState" where
  "checkSystems generateContent now goals st =
     (case newAlerts generateContent now goals of
        Inl e \<Rightarrow> Inl e
      | Inr alerts \<Rightarrow> Inr (if length alerts > 0 then appendFresh alerts st else st))"

section \<open>Goal repository (the handlers of App)\<close>

text \<open>
  The part of the component state the handlers below write. \<open>Date.now()\<close> is the
  parameter \<open>now\<close>, \<open>crypto.randomUUID()\<close> the parameter \<open>newId\<close>, and the answer to
  \<open>confirm(...)\<close> the parameter \<open>confirmed\<close>.
\<close>

record AppState =
  goals :: "Goal list"
  userCategories :: "string list"
  areaOrder :: "string list"
  archivedCategories :: "string list"

text \<open>
  \<open>Partial<Goal>\<close>: every key may be absent (\<open>None\<close>). A key that is present on an
  optional field may hold \<open>undefined\<close> (\<open>Some None\<close>), as \<open>deadline\<close> does when the form's
  date is empty.
\<close>

record PartialGoal =
  p_id :: "string option"
  p_title :: "string option"
  p_description :: "string option"
  p_level :: "GoalLevel option"
  p_priority :: "GoalPriority option"
  p_area :: "string option"
  p_deadline :: "int option option"
  p_estimatedCost :: "int option"
  p_subTasks :: "SubTask list option"
  p_completed :: "bool option"
  p_createdAt :: "int option"
  p_completedAt :: "int option option"
  p_lastInteractionAt :: "int option"
  p_pinned :: "bool option"
  p_order :: "int option"
  p_achievedMilestones :: "int list option"
  p_archived :: "bool option"

definition orElse :: "'a option \<Rightarrow> 'a \<Rightarrow> 'a" where
  "orElse v d = (case v of None \<Rightarrow> d | Some x \<Rightarrow> x)"

text \<open>The object spread \<open>{ ...g, ...updatedData }\<close>.\<close>

definition spreadGoal :: "Goal \<Rightarrow> PartialGoal \<Rightarrow> Goal" where
  "spreadGoal g u =
     \<lparr>id_g = orElse (p_id u) (id_g g),
      title = orElse (p_title u) (title g),
      description = orElse (p_description u) (description g),
      level = orElse (p_level u) (level g),
      priority = orElse (p_priority u) (priority g),
      area = orElse (p_area u) (area g),
      deadline = orElse (p_deadline u) (deadline g),
      estimatedCost = orElse (p_estimatedCost u) (estimatedCost g),
      subTasks = orElse (p_subTasks u) (subTasks g),
      completed = orElse (p_completed u) (completed g),
      createdAt = orElse (p_createdAt u) (createdAt g),
      completedAt = orElse (p_completedAt u) (completedAt g),
      lastInteractionAt = orElse (p_lastInteractionAt u) (lastInteractionAt g),
      pinned = orElse (p_pinned u) (pinned g),
      order_g = orElse (p_order u) (order_g g),
      achievedMilestones = orElse (p_achievedMilestones u) (achievedMilestones g),
      archived = orElse (p_archived u) (archived g)\<rparr>"

text \<open>
  The object \<open>GoalForm.handleSubmit\<close> hands to \<open>onAdd\<close> and \<open>onUpdate\<close>: \<open>goalData\<close> with
  the sub-tasks whose text is not blank. These are all its keys.
\<close>

record GoalData =
  title_d :: string
  description_d :: string
  level_d :: GoalLevel
  priority_d :: GoalPriority
  area_d :: string
  deadline_d :: "int option"
  estimatedCost_d :: int
  pinned_d :: bool
  lastInteractionAt_d :: int
  order_d :: int
  subTasks_d :: "SubTask list"

definition partialOfGoalData :: "GoalData \<Rightarrow> PartialGoal" where
  "partialOfGoalData d =
     \<lparr>p_id = None, p_title = Some (title_d d), p_description = Some (description_d d),
      p_level = Some (level_d d), p_priority = Some (priority_d d), p_area = Some (area_d d),
      p_deadline = Some (deadline_d d), p_estimatedCost = Some (estimatedCost_d d),
      p_subTasks = Some (subTasks_d d), p_completed = None, p_createdAt = None,
      p_completedAt = None, p_lastInteractionAt = Some (lastInteractionAt_d d),
      p_pinned = Some (pinned_d d), p_order = Some (order_d d), p_achievedMilestones = None,
      p_archived = None\<rparr>"

text \<open>\<open>GoalForm.handleSubTaskChange(id, 'targetProgress', value)\<close>\<close>

definition handleSubTaskChange_targetProgress :: "string \<Rightarrow> int \<Rightarrow> SubTask list \<Rightarrow> SubTask list" where
  "handleSubTaskChange_targetProgress i v ts =
     map (\<lambda>task. if id_t task = i then task\<lparr>targetProgress := v\<rparr> else task) ts"

text \<open>\<open>handleWelcomeComplete\<close>, on the part of the state kept here.\<close>

definition handleWelcomeComplete :: "string list \<Rightarrow> AppState \<Rightarrow> AppState" where
  "handleWelcomeComplete categories s = s\<lparr>userCategories := categories, areaOrder := categories\<rparr>"

text \<open>\<open>handleAddNewCategory\<close>, with \<open>newCategoryName\<close> as its argument.\<close>

definition handleAddNewCategory :: "string \<Rightarrow> AppState \<Rightarrow> AppState" where
  "handleAddNewCategory newCategoryName s =
     (if trim newCategoryName \<noteq> [] \<and> trim newCategoryName \<notin> set (userCategories s) then
        s\<lparr>userCategories := userCategories s @ [trim newCategoryName],
          areaOrder := areaOrder s @ [trim newCategoryName]\<rparr>
      else s)"

definition handleUpdateGoal :: "string \<Rightarrow> PartialGoal \<Rightarrow> int \<Rightarrow> AppState \<Rightarrow> AppState" where
  "handleUpdateGoal i updatedData now s =
     s\<lparr>goals := map (\<lambda>g. if id_g g = i
                           then (spreadGoal g updatedData)\<lparr>lastInteractionAt := now\<rparr> else g)
                    (goals s)\<rparr>"

definition handleTogglePinned :: "string \<Rightarrow> int \<Rightarrow> AppState \<Rightarrow> AppState" where
  "handleTogglePinned i now s =
     s\<lparr>goals := map (\<lambda>g. if id_g g = i
                           then g\<lparr>pinned := \<not> pinned g, lastInteractionAt := now\<rparr> else g)
                    (goals s)\<rparr>"

definition handleDeleteGoal :: "string \<Rightarrow> bool \<Rightarrow> AppState \<Rightarrow> AppState" where
  "handleDeleteGoal i confirmed s =
     (if confirmed then s\<lparr>goals := filter (\<lambda>g. id_g g \<noteq> i) (goals s)\<rparr> else s)"

definition handleToggleArchive :: "string \<Rightarrow> int \<Rightarrow> AppState \<Rightarrow> AppState" where
  "handleToggleArchive i now s =
     s\<lparr>goals := map (\<lambda>g. if id_g g = i
                           then g\<lparr>archived := \<not> archived g, lastInteractionAt := now\<rparr> else g)
                    (goals s)\<rparr>"

definition handleArchiveCategory :: "string \<Rightarrow> bool \<Rightarrow> AppState \<Rightarrow> AppState" where
  "handleArchiveCategory area' confirmed s =
     (if confirmed then
        s\<lparr>userCategories := filter (\<lambda>c. c \<noteq> area') (userCategories s),
          areaOrder := filter (\<lambda>c. c \<noteq> area') (areaOrder s),
          archivedCategories := archivedCategories s @ [area'],
          goals := map (\<lambda>g. if area g = area' then g\<lparr>archived := True\<rparr> else g) (goals s)\<rparr>
      else s)"

definition handleToggleComplete :: "string \<Rightarrow> int \<Rightarrow> AppState \<Rightarrow> AppState" where
  "handleToggleComplete i now s =
     s\<lparr>goals := map (\<lambda>g. if id_g g = i then
                             (let nextState = \<not> completed g
                              in g\<lparr>completed := nextState,
                                   archived := (if nextState then True else False),
                                   completedAt := (if nextState then Some now else None),
                                   lastInteractionAt := now\<rparr>)
                           else g)
                    (goals s)\<rparr>"

text \<open>
  What \<open>handleToggleSubTask\<close> and \<open>handleSubTaskProgress\<close> return for the sub-task whose
  id matches; \<open>t.targetProgress || 0\<close> is \<open>t.targetProgress\<close> on a number.
\<close>

definition toggleSubTask :: "SubTask \<Rightarrow> SubTask" where
  "toggleSubTask t =
     (let nextCompleted = \<not> completed_t t;
          target = max 1 (targetProgress t)
      in t\<lparr>completed_t := nextCompleted,
           currentProgress := (if nextCompleted then target else 0)\<rparr>)"

definition progressSubTask :: "int \<Rightarrow> SubTask \<Rightarrow> SubTask" where
  "progressSubTask delta t =
     (let target = max 1 (targetProgress t);
          nextProgress = max 0 (min target (currentProgress t + delta))
      in t\<lparr>currentProgress := nextProgress, completed_t := (nextProgress \<ge> target)\<rparr>)"

definition handleToggleSubTask :: "string \<Rightarrow> string \<Rightarrow> int \<Rightarrow> AppState \<Rightarrow> AppState" where
  "handleToggleSubTask goalId subTaskId now s =
     s\<lparr>goals := map (\<lambda>g. if id_g g = goalId then
                             g\<lparr>subTasks := map (\<lambda>t. if id_t t = subTaskId then toggleSubTask t else t)
                                                (subTasks g),
                               lastInteractionAt := now\<rparr>
                           else g)
                    (goals s)\<rparr>"

definition handleSubTaskProgress ::
  "string \<Rightarrow> string \<Rightarrow> int \<Rightarrow> int \<Rightarrow> AppState \<Rightarrow> AppState" where
  "handleSubTaskProgress goalId subTaskId delta now s =
     s\<lparr>goals := map (\<lambda>g. if id_g g = goalId then
                             g\<lparr>subTasks := map (\<lambda>t. if id_t t = subTaskId
                                                        then progressSubTask delta t else t)
                                                (subTasks g),
                               lastInteractionAt := now\<rparr>
                           else g)
                    (goals s)\<rparr>"

text \<open>
  \<open>handleAddGoal\<close>: every sub-task the form submits carries its own \<open>id\<close>, which the
  spread \<open>...t\<close> keeps over the fresh one.
\<close>

definition handleAddGoal :: "string \<Rightarrow> GoalData \<Rightarrow> int \<Rightarrow> AppState \<Rightarrow> AppState" where
  "handleAddGoal newId goalData now s =
     (let newGoal =
        \<lparr>id_g = newId, title = title_d goalData, description = description_d goalData,
         level = level_d goalData, priority = priority_d goalData, area = area_d goalData,
         deadline = deadline_d goalData, estimatedCost = estimatedCost_d goalData,
         subTasks = map (\<lambda>t. t\<lparr>completed_t := (if targetProgress t > 0
                                                    then currentProgress t \<ge> targetProgress t
                                                    else completed_t t),
                                  currentProgress := currentProgress t,
                                  deleted := False\<rparr>)
                        (subTasks_d goalData),
         completed = False, createdAt = now, completedAt = None, lastInteractionAt = now,
         pinned = pinned_d goalData, order_g = int (length (goals s)),
         achievedMilestones = [], archived = False\<rparr>
      in s\<lparr>goals := newGoal # goals s\<rparr>)"

text \<open>The user's actions on the repository, and a session as a sequence of them.\<close>

datatype Op =
  AddGoal string GoalData int
| UpdateGoal string GoalData int
| TogglePinned string int
| DeleteGoal string bool
| ToggleArchive string int
| ArchiveCategory string bool
| ToggleComplete string int
| ToggleSubTask string string int
| SubTaskProgress string string int int
| AddCategory string

fun applyOp :: "Op \<Rightarrow> AppState \<Rightarrow> AppState" where
  "applyOp (AddGoal newId d now) s = handleAddGoal newId d now s"
| "applyOp (UpdateGoal i d now) s = handleUpdateGoal i (partialOfGoalData d) now s"
| "applyOp (TogglePinned i now) s = handleTogglePinned i now s"
| "applyOp (DeleteGoal i c) s = handleDeleteGoal i c s"
| "applyOp (ToggleArchive i now) s = handleToggleArchive i now s"
| "applyOp (ArchiveCategory a c) s = handleArchiveCategory a c s"
| "applyOp (ToggleComplete i now) s = handleToggleComplete i now s"
| "applyOp (ToggleSubTask gi ti now) s = handleToggleSubTask gi ti now s"
| "applyOp (SubTaskProgress gi ti delta now) s = handleSubTaskProgress gi ti delta now s"
| "applyOp (AddCategory c) s = handleAddNewCategory c s"

fun runOps :: "Op list \<Rightarrow> AppState \<Rightarrow> AppState" where
  "runOps [] s = s"
| "runOps (op # ops) s = runOps ops (applyOp op s)"

text \<open>The state of a first launch: no goals, the built-in categories (\<open>Object.values(LifeArea)\<close>).\<close>

definition initialState :: AppState where
  "initialState =
     \<lparr>goals = [],
      userCategories = [''Health & Wellness'', ''Relationships'', ''Career & Finances'',
                        ''Personal Growth'', ''Fun & Travels'', ''Others''],
      areaOrder = [], archivedCategories = []\<rparr>"

text \<open>The operations on one sub-task, and a sequence of them applied to it.\<close>

datatype SubTaskOp = Toggle | Progress int

fun applySubTaskOp :: "SubTaskOp \<Rightarrow> SubTask \<Rightarrow> SubTask" where
  "applySubTaskOp Toggle t = toggleSubTask t"
| "applySubTaskOp (Progress delta) t = progressSubTask delta t"

fun runSubTaskOps :: "SubTaskOp list \<Rightarrow> SubTask \<Rightarrow> SubTask" where
  "runSubTaskOps [] t = t"
| "runSubTaskOps (op # ops) t = runSubTaskOps ops (applySubTaskOp op t)"

text \<open>
  Whether, at some step of a session, the archive toggle was applied to the id \<open>i\<close>
  while a goal of that id was completed and archived.
\<close>

fun isArchiveToggleOf :: "string \<Rightarrow> Op \<Rightarrow> bool" where
  "isArchiveToggleOf i (ToggleArchive j now) = (i = j)"
| "isArchiveToggleOf i _ = False"

fun unarchivedWhileCompleted :: "string \<Rightarrow> Op list \<Rightarrow> AppState \<Rightarrow> bool" where
  "unarchivedWhileCompleted i [] s = False"
| "unarchivedWhileCompleted i (op # ops) s =
     ((isArchiveToggleOf i op \<and> (\<exists>g \<in> set (goals s). id_g g = i \<and> completed g \<and> archived g))
      \<or> unarchivedWhileCompleted i ops (applyOp op s))"

text \<open>
  The form data of an add or an update keep every sub-task's \<open>currentProgress\<close> at or
  below \<open>max(1, targetProgress)\<close>; the other operations carry no form data.
\<close>

fun formBounded :: "Op \<Rightarrow> bool" where
  "formBounded (AddGoal newId d now) =
     (\<forall>t \<in> set (subTasks_d d). currentProgress t \<le> max 1 (targetProgress t))"
| "formBounded (UpdateGoal i d now) =
     (\<forall>t \<in> set (subTasks_d d). currentProgress t \<le> max 1 (targetProgress t))"
| "formBounded _ = True"

section \<open>Invariants of the goal collection\<close>

definition completedAt_iff :: "AppState \<Rightarrow> bool" where
  "completedAt_iff s = (\<forall>g \<in> set (goals s). (completedAt g \<noteq> None) = completed g)"

definition subTasksBounded :: "AppState \<Rightarrow> bool" where
  "subTasksBounded s =
     (\<forall>g \<in> set (goals s). \<forall>t \<in> set (subTasks g). currentProgress t \<le> max 1 (targetProgress t))"

text \<open>
  The condition under which one \<open>push\<close> throws: the goal passes the search, its area has
  no bucket, and the area is the name of an inherited property.
\<close>

definition crashes ::
  "(string \<Rightarrow> string) \<Rightarrow> string \<Rightarrow> (string \<rightharpoonup> Goal list) \<Rightarrow> Goal \<Rightarrow> bool" where
  "crashes lc q grouped g \<longleftrightarrow>
     matchesQuery lc q g \<and> grouped (area g) = None \<and> area g \<in> set objectPrototypeKeys"

section \<open>Concrete inputs\<close>

definition t0 :: SubTask where
  "t0 = \<lparr>id_t = ''t1'', text_t = ''run'', completed_t = False, currentProgress = 2,
         targetProgress = 4, level_t = MEDIUM, priority_t = MEDIUM_P, deadline_t = None,
         tip = None, deleted = False\<rparr>"

text \<open>Created at \<open>1000\<close>, due ten days later, one sub-task at 2 of 4.\<close>

definition g0 :: Goal where
  "g0 = \<lparr>id_g = ''g1'', title = ''Run'', description = '''', level = MEDIUM,
     priority = MEDIUM_P, area = ''Health'', deadline = Some 864001000, estimatedCost = 0,
     subTasks = [t0], completed = False, createdAt = 1000, completedAt = None,
     lastInteractionAt = 1000, pinned = False, order_g = 0, achievedMilestones = [],
     archived = False\<rparr>"



text \<open>
  A goal without a deadline whose one sub-task wants five check-ins; a session that adds
  it and checks in three times; and the form data of an edit that then lowers the
  sub-task's target to two.
\<close>

definition t5 :: SubTask where
  "t5 = \<lparr>id_t = ''t1'', text_t = ''pages'', completed_t = False, currentProgress = 0,
         targetProgress = 5, level_t = MEDIUM, priority_t = MEDIUM_P, deadline_t = None,
         tip = None, deleted = False\<rparr>"

definition d10 :: GoalData where
  "d10 = \<lparr>title_d = ''Read'', description_d = '''', level_d = MEDIUM, priority_d = MEDIUM_P,
          area_d = ''Personal Growth'', deadline_d = None, estimatedCost_d = 0, pinned_d = False,
          lastInteractionAt_d = 1000, order_d = 0, subTasks_d = [t5]\<rparr>"

definition ops10 :: "Op list" where
  "ops10 = [AddGoal ''g1'' d10 1000, SubTaskProgress ''g1'' ''t1'' 1 2000,
            SubTaskProgress ''g1'' ''t1'' 1 3000, SubTaskProgress ''g1'' ''t1'' 1 4000]"

definition s10 :: AppState where
  "s10 = runOps ops10 initialState"

definition d10_edit :: GoalData where
  "d10_edit = d10\<lparr>lastInteractionAt_d := 5000,
     subTasks_d := handleSubTaskChange_targetProgress ''t1'' 2 (concat (map subTasks (goals s10)))\<rparr>"

text \<open>
  A session that adds a goal and completes it; and its sequel, where the user brings the
  completed goal back with the archive toggle, then adds and completes a second goal.
\<close>

definition s4 :: "Op list" where
  "s4 = [AddGoal ''g1'' d10 1000, ToggleComplete ''g1'' 2000]"

definition s4b :: "Op list" where
  "s4b = s4 @ [ToggleArchive ''g1'' 3000, AddGoal ''g2'' d10 4000, ToggleComplete ''g2'' 5000]"

text \<open>
  An advisory service that rejects every request, one that answers, and a goal due in
  one day (read at \<open>1000000000\<close>) that was last touched five days before.
\<close>

definition failing :: "string \<Rightarrow> string \<Rightarrow> js_error + string option" where
  "failing goalTitle area' = Inl AdvisoryFailure"

definition answering :: "string \<Rightarrow> string \<Rightarrow> js_error + string option" where
  "answering goalTitle area' = Inr (Some '' One tiny step is enough. '')"

definition g7 :: Goal where
  "g7 = \<lparr>id_g = ''g7'', title = ''Taxes'', description = '''', level = HARD,
     priority = HIGH, area = ''Career & Finances'', deadline = Some 1086400000, estimatedCost = 0,
     subTasks = [], completed = False, createdAt = 500000000, completedAt = None,
     lastInteractionAt = 568000000, pinned = False, order_g = 0, achievedMilestones = [],
     archived = False\<rparr>"

text \<open>
  A goal due in three days to the millisecond (read at \<open>1000000000\<close>), touched an hour
  before.
\<close>

definition g8 :: Goal where
  "g8 = g7\<lparr>id_g := ''g8'', title := ''Passport'', deadline := Some 1259200000,
             lastInteractionAt := 996400000\<rparr>"

text \<open>
  A session after onboarding with the built-in categories: the user adds the category
  \<open>constructor\<close>, files a goal under it, archives the category, and brings the goal back
  with the archive toggle.
\<close>

definition d_ctor :: GoalData where
  "d_ctor = d10\<lparr>title_d := ''Build'', area_d := ''constructor''\<rparr>"

definition s_ctor :: AppState where
  "s_ctor = runOps [AddCategory ''constructor'', AddGoal ''g1'' d_ctor 1000,
                    ArchiveCategory ''constructor'' True, ToggleArchive ''g1'' 2000]
              (handleWelcomeComplete (userCategories initialState) initialState)"

text \<open>
  A lower-casing function for the concrete inputs: the runtime's on ASCII text.
\<close>

definition asciiLowerCase :: "string \<Rightarrow> string" where
  "asciiLowerCase s =
     map (\<lambda>c. if 65 \<le> (of_char c :: nat) \<and> (of_char c :: nat) \<le> 90
              then char_of ((of_char c :: nat) + 32) else c) s"

text \<open>An older goal of high priority and a newer one of low priority, in one area.\<close>

definition g_high :: Goal where
  "g_high = g0\<lparr>id_g := ''old'', priority := HIGH, createdAt := 1000\<rparr>"

definition g_low :: Goal where
  "g_low = g0\<lparr>id_g := ''new'', priority := LOW, createdAt := 9000\<rparr>"

section \<open>Properties\<close>

subsection \<open>The sums of the progress percentage\<close>

lemma foldl_add_sum_list:
  "foldl (\<lambda>acc t. acc + f t) (a::int) xs = a + sum_list (map f xs)"
  by (induction xs arbitrary: a) simp_all

lemma totalTarget_sum:
  "totalTarget goal = sum_list (map (\<lambda>t. max 1 (targetProgress t)) (activeSubTasks goal))"
  by (simp add: totalTarget_def foldl_add_sum_list)

lemma totalCurrent_sum:
  "totalCurrent goal = sum_list (map currentProgress (activeSubTasks goal))"
  by (simp add: totalCurrent_def foldl_add_sum_list)

lemma sum_list_max1_ge_length:
  "int (length xs) \<le> sum_list (map (\<lambda>t. max 1 (targetProgress t)) xs)"
  by (induction xs) auto

lemma totalTarget_pos_iff: "totalTarget goal > 0 \<longleftrightarrow> activeSubTasks goal \<noteq> []"
proof
  assume "totalTarget goal > 0"
  then show "activeSubTasks goal \<noteq> []"
    by (auto simp: totalTarget_def)
next
  assume "activeSubTasks goal \<noteq> []"
  then have "0 < int (length (activeSubTasks goal))" by simp
  also have "\<dots> \<le> totalTarget goal"
    unfolding totalTarget_sum by (rule sum_list_max1_ge_length)
  finally show "totalTarget goal > 0" .
qed

subsection \<open>Rounding to a double\<close>

text \<open>\<open>ilog2 a\<close> is the exponent of \<open>a\<close>: \<open>2^(ilog2 a) \<le> a < 2^(ilog2 a + 1)\<close>.\<close>

lemma ilog2_le:
  assumes "0 < a"
  shows "2 powi ilog2 a \<le> a"
proof -
  obtain p q where pq: "quotient_of a = (p, q)" by (cases "quotient_of a")
  then have q: "0 < q" and a: "a = of_int p / of_int q"
    using quotient_of_denom_pos [of a p q] quotient_of_div [of a p q] by auto
  with assms have p: "0 < p" by (simp add: zero_less_divide_iff)
  let ?k = "bitlen p - bitlen q"
  show ?thesis
  proof (cases "2 powi ?k \<le> a")
    case True
    then show ?thesis by (simp add: ilog2_def pq Let_def)
  next
    case False
    have bp: "(2::rat) powi (bitlen p - 1) \<le> of_int p"
    proof -
      have "(2::int) ^ nat (bitlen p - 1) \<le> p" using bitlen_bounds [OF p] by simp
      then have "(of_int ((2::int) ^ nat (bitlen p - 1)) :: rat) \<le> of_int p"
        by (simp only: of_int_le_iff)
      moreover have "0 \<le> bitlen p - 1"
        using p bitlen_eq_zero_iff [of p] bitlen_nonneg [of p] by linarith
      ultimately show ?thesis by (simp add: power_int_def)
    qed
    have bq: "(of_int q :: rat) \<le> 2 powi bitlen q"
    proof -
      have "q < (2::int) ^ nat (bitlen q)" using bitlen_bounds [OF q] by simp
      then have "(of_int q :: rat) \<le> of_int ((2::int) ^ nat (bitlen q))"
        by (simp only: of_int_le_iff)
      moreover have "0 \<le> bitlen q" by (rule bitlen_nonneg)
      ultimately show ?thesis by (simp add: power_int_def)
    qed
    have "(2::rat) powi (?k - 1) = 2 powi (bitlen p - 1) / 2 powi bitlen q"
      by (simp add: power_int_diff)
    also have "\<dots> \<le> of_int p / of_int q"
      using bp bq q p by (intro frac_le) (simp_all add: zero_less_power_int)
    finally have "(2::rat) powi (?k - 1) \<le> a" by (simp add: a)
    with False show ?thesis by (simp add: ilog2_def pq Let_def)
  qed
qed

lemma ilog2_less:
  assumes "0 < a"
  shows "a < 2 powi (ilog2 a + 1)"
proof -
  obtain p q where pq: "quotient_of a = (p, q)" by (cases "quotient_of a")
  then have q: "0 < q" and a: "a = of_int p / of_int q"
    using quotient_of_denom_pos [of a p q] quotient_of_div [of a p q] by auto
  with assms have p: "0 < p" by (simp add: zero_less_divide_iff)
  let ?k = "bitlen p - bitlen q"
  show ?thesis
  proof (cases "2 powi ?k \<le> a")
    case False
    then show ?thesis by (simp add: ilog2_def pq Let_def)
  next
    case True
    have bp: "(of_int p :: rat) < 2 powi bitlen p"
    proof -
      have "p < (2::int) ^ nat (bitlen p)" using bitlen_bounds [OF p] by simp
      then have "(of_int p :: rat) < of_int ((2::int) ^ nat (bitlen p))"
        by (simp only: of_int_less_iff)
      moreover have "0 \<le> bitlen p" by (rule bitlen_nonneg)
      ultimately show ?thesis by (simp add: power_int_def)
    qed
    have bq: "(2::rat) powi (bitlen q - 1) \<le> of_int q"
    proof -
      have "(2::int) ^ nat (bitlen q - 1) \<le> q" using bitlen_bounds [OF q] by simp
      then have "(of_int ((2::int) ^ nat (bitlen q - 1)) :: rat) \<le> of_int q"
        by (simp only: of_int_le_iff)
      moreover have "0 \<le> bitlen q - 1"
        using q bitlen_eq_zero_iff [of q] bitlen_nonneg [of q] by linarith
      ultimately show ?thesis by (simp add: power_int_def)
    qed
    have "a = of_int p / of_int q" by (rule a)
    also have "\<dots> < 2 powi bitlen p / 2 powi (bitlen q - 1)"
      using bp bq q p by (intro frac_less) (simp_all add: zero_less_power_int)
    also have "\<dots> = 2 powi (?k + 1)"
      using power_int_diff [of "2::rat" "bitlen p" "bitlen q - 1"] by (simp add: algebra_simps)
    finally show ?thesis using True by (simp add: ilog2_def pq Let_def)
  qed
qed

lemma roundHalfEven_le: "m \<le> of_int K \<Longrightarrow> roundHalfEven m \<le> K"
  unfolding roundHalfEven_def Let_def by (auto split: if_splits) linarith+

lemma roundHalfEven_ge: "of_int K \<le> m \<Longrightarrow> K \<le> roundHalfEven m"
  unfolding roundHalfEven_def Let_def by (auto split: if_splits) linarith+


lemma two_powi_split:
  assumes "e + int j \<le> 0"
  shows "(2::rat) powi e = 1 / (2 ^ j * 2 ^ nat (- e - int j))"
proof -
  have "e = - int (j + nat (- e - int j))" using assms by simp
  then have "(2::rat) powi e = 2 powi (- int (j + nat (- e - int j)))" by simp
  also have "\<dots> = 1 / 2 ^ (j + nat (- e - int j))"
    by (simp only: power_int_minus_divide power_int_of_nat)
  finally show ?thesis by (simp add: power_add)
qed

lemma fl_pos:
  assumes "0 < x"
  shows "fl x = of_int (roundHalfEven (x / 2 powi (ilog2 x - 52))) * 2 powi (ilog2 x - 52)"
  using assms by (simp add: fl_def Let_def)

lemma fl_nonpos: "x \<le> 0 \<Longrightarrow> fl x \<le> 0"
proof -
  assume x: "x \<le> 0"
  have "0 \<le> roundHalfEven (\<bar>x\<bar> / 2 powi (ilog2 \<bar>x\<bar> - 52))"
    by (rule roundHalfEven_ge) simp
  then have "0 \<le> (of_int (roundHalfEven (\<bar>x\<bar> / 2 powi (ilog2 \<bar>x\<bar> - 52))) :: rat) * 2 powi (ilog2 \<bar>x\<bar> - 52)"
    by simp
  with x show ?thesis
    by (cases "x = 0") (simp_all add: fl_def Let_def sgn_if mult_le_0_iff)
qed

lemma fl_exponent_small:
  assumes "0 < x" and "x * 2 ^ j < 2 ^ 53"
  shows "ilog2 x - 52 + int j \<le> 0"
proof (rule ccontr)
  assume "\<not> ilog2 x - 52 + int j \<le> 0"
  then have "53 - int j \<le> ilog2 x" by simp
  then have "(2::rat) powi (53 - int j) \<le> 2 powi ilog2 x"
    by (intro power_int_increasing) simp_all
  also have "\<dots> \<le> x" by (rule ilog2_le [OF assms(1)])
  finally have "(2::rat) powi (53 - int j) * 2 ^ j \<le> x * 2 ^ j" by (simp add: mult_right_mono)
  moreover have "(2::rat) powi (53 - int j) * 2 ^ j = 2 ^ 53"
    using power_int_add [of "2::rat" "53 - int j" "int j"] by simp
  ultimately show False using assms(2) by simp
qed

text \<open>
  Rounding never crosses a double: \<open>n / 2^j\<close> with \<open>0 < n < 2^53\<close> is one, and \<open>fl\<close> keeps
  \<open>x\<close> on its side of it.
\<close>

lemma fl_le_rep:
  assumes "x \<le> of_int n / 2 ^ j" and "0 < n" and "n < 2 ^ 53"
  shows "fl x \<le> of_int n / 2 ^ j"
proof (cases "0 < x")
  case False
  then have "fl x \<le> 0" by (intro fl_nonpos) simp
  also have "(0::rat) \<le> of_int n / 2 ^ j" using assms(2) by simp
  finally show ?thesis .
next
  case True
  let ?e = "ilog2 x - 52"
  let ?k = "nat (- ?e - int j)"
  have xs: "x * 2 ^ j \<le> of_int n" using assms(1) by (simp add: pos_le_divide_eq)
  have "(of_int n :: rat) < of_int (2 ^ 53)" using assms(3) by (simp only: of_int_less_iff)
  with xs have "x * 2 ^ j < 2 ^ 53" by simp
  then have e: "?e + int j \<le> 0" by (rule fl_exponent_small [OF True])
  have p: "(2::rat) powi ?e = 1 / (2 ^ j * 2 ^ ?k)" by (rule two_powi_split [OF e])
  have "x / 2 powi ?e = (x * 2 ^ j) * 2 ^ ?k" by (simp add: p)
  also have "\<dots> \<le> of_int n * 2 ^ ?k" using xs by (rule mult_right_mono) simp
  also have "\<dots> = of_int (n * 2 ^ ?k)" by simp
  finally have "roundHalfEven (x / 2 powi ?e) \<le> n * 2 ^ ?k" by (rule roundHalfEven_le)
  then have "(of_int (roundHalfEven (x / 2 powi ?e)) :: rat) \<le> of_int (n * 2 ^ ?k)"
    by (simp only: of_int_le_iff)
  then have "(of_int (roundHalfEven (x / 2 powi ?e)) :: rat) * (1 / (2 ^ j * 2 ^ ?k))
               \<le> of_int (n * 2 ^ ?k) * (1 / (2 ^ j * 2 ^ ?k))"
    by (intro mult_right_mono) simp_all
  then show ?thesis by (simp add: fl_pos [OF True] p)
qed

lemma fl_ge_rep:
  assumes "of_int n / 2 ^ j \<le> x" and "0 < n" and "n < 2 ^ 53"
  shows "of_int n / 2 ^ j \<le> fl x"
proof -
  have "(0::rat) < of_int n / 2 ^ j" using assms(2) by simp
  with assms(1) have pos: "0 < x" by linarith
  let ?e = "ilog2 x - 52"
  let ?k = "nat (- ?e - int j)"
  have xs: "of_int n \<le> x * 2 ^ j" using assms(1) by (simp add: pos_divide_le_eq)
  show ?thesis
  proof (cases "?e + int j \<le> 0")
    case True
    have p: "(2::rat) powi ?e = 1 / (2 ^ j * 2 ^ ?k)" by (rule two_powi_split [OF True])
    have "(of_int (n * 2 ^ ?k) :: rat) = of_int n * 2 ^ ?k" by simp
    also have "\<dots> \<le> (x * 2 ^ j) * 2 ^ ?k" using xs by (rule mult_right_mono) simp
    also have "\<dots> = x / 2 powi ?e" by (simp add: p)
    finally have "n * 2 ^ ?k \<le> roundHalfEven (x / 2 powi ?e)" by (rule roundHalfEven_ge)
    then have "(of_int (n * 2 ^ ?k) :: rat) \<le> of_int (roundHalfEven (x / 2 powi ?e))"
      by (simp only: of_int_le_iff)
    then have "(of_int (n * 2 ^ ?k) :: rat) * (1 / (2 ^ j * 2 ^ ?k))
                 \<le> of_int (roundHalfEven (x / 2 powi ?e)) * (1 / (2 ^ j * 2 ^ ?k))"
      by (intro mult_right_mono) simp_all
    then show ?thesis by (simp add: fl_pos [OF pos] p)
  next
    case False
    then have e: "1 - int j \<le> ?e" by simp
    have "(2::rat) powi (52 + ?e) = 2 powi 52 * 2 powi ?e" by (rule power_int_add) simp
    moreover have "52 + ?e = ilog2 x" by simp
    ultimately have "(2::rat) powi ilog2 x = 2 ^ 52 * 2 powi ?e" by simp
    with ilog2_le [OF pos] have "(2::rat) ^ 52 * 2 powi ?e \<le> x" by simp
    then have "(2::rat) ^ 52 \<le> x / 2 powi ?e" by (simp add: pos_le_divide_eq)
    then have "(of_int (2 ^ 52) :: rat) \<le> x / 2 powi ?e" by simp
    then have "2 ^ 52 \<le> roundHalfEven (x / 2 powi ?e)" by (rule roundHalfEven_ge)
    then have "(of_int (2 ^ 52) :: rat) \<le> of_int (roundHalfEven (x / 2 powi ?e))"
      by (simp only: of_int_le_iff)
    then have r: "(2 ^ 52 :: rat) \<le> of_int (roundHalfEven (x / 2 powi ?e))" by simp
    have "(2::rat) powi (1 - int j) \<le> 2 powi ?e" using e by (intro power_int_increasing) simp_all
    moreover have "(2::rat) powi (1 - int j) = 2 / 2 ^ j"
      using power_int_diff [of "2::rat" 1 "int j"] by simp
    ultimately have t: "(2::rat) / 2 ^ j \<le> 2 powi ?e" by simp
    have "(of_int n :: rat) < of_int (2 ^ 53)" using assms(3) by (simp only: of_int_less_iff)
    then have "(of_int n :: rat) / 2 ^ j < 2 ^ 53 / 2 ^ j" by (simp add: divide_strict_right_mono)
    also have "\<dots> = 2 ^ 52 * ((2::rat) / 2 ^ j)" by simp
    also have "\<dots> \<le> of_int (roundHalfEven (x / 2 powi ?e)) * 2 powi ?e"
      using r t by (intro mult_mono) simp_all
    finally show ?thesis by (simp add: fl_pos [OF pos])
  qed
qed

lemma fl_le_int: "x \<le> of_int n \<Longrightarrow> 0 < n \<Longrightarrow> n < 2 ^ 53 \<Longrightarrow> fl x \<le> of_int n"
  using fl_le_rep [of x n 0] by simp

lemma fl_ge_int: "of_int n \<le> x \<Longrightarrow> 0 < n \<Longrightarrow> n < 2 ^ 53 \<Longrightarrow> of_int n \<le> fl x"
  using fl_ge_rep [of n 0 x] by simp

lemma fl_int: "0 < n \<Longrightarrow> n < 2 ^ 53 \<Longrightarrow> fl (of_int n) = of_int n"
  using fl_le_int [of "of_int n" n] fl_ge_int [of n "of_int n"] by simp


lemma fl_one: "fl 1 = 1"
  using fl_int [of 1] by simp


lemma fl_three: "fl 3 = 3"
  using fl_int [of 3] by simp


subsection \<open>The progress formula\<close>




lemmas trim_simps = trim_def trimStart_def trimEnd_def leadLength_def whiteSpace_def

lemmas handler_defs = handleAddGoal_def handleAddNewCategory_def handleUpdateGoal_def handleTogglePinned_def
  handleDeleteGoal_def handleToggleArchive_def handleArchiveCategory_def handleToggleComplete_def
  handleToggleSubTask_def handleSubTaskProgress_def

subsection \<open>Sub-task operations\<close>

lemma applySubTaskOp_inv:
  "completed_t (applySubTaskOp op t) \<longleftrightarrow>
     currentProgress (applySubTaskOp op t) \<ge> max 1 (targetProgress (applySubTaskOp op t))"
  by (cases op) (auto simp: toggleSubTask_def progressSubTask_def Let_def)

lemma runSubTaskOps_inv:
  "ops \<noteq> [] \<Longrightarrow> completed_t (runSubTaskOps ops t) \<longleftrightarrow>
     currentProgress (runSubTaskOps ops t) \<ge> max 1 (targetProgress (runSubTaskOps ops t))"
proof (induction ops arbitrary: t)
  case Nil
  then show ?case by simp
next
  case (Cons op ops)
  show ?case
  proof (cases "ops = []")
    case True
    then show ?thesis using applySubTaskOp_inv [of op t] by simp
  next
    case False
    then show ?thesis using Cons.IH [of "applySubTaskOp op t"] by simp
  qed
qed

text \<open>
  Claim C8. After any non-empty sequence of sub-task operations (progress changes by any
  delta, boolean toggles) the sub-task is completed exactly when its \<open>currentProgress\<close>
  is at least \<open>max(1, targetProgress)\<close>. A progress change that leaves the sum below
  the target clears \<open>completed\<close>; one that meets the target exactly sets it.
\<close>

theorem subTask_completed_iff:
  "(ops \<noteq> [] \<longrightarrow>
      (completed_t (runSubTaskOps ops t) \<longleftrightarrow>
       currentProgress (runSubTaskOps ops t) \<ge> max 1 (targetProgress (runSubTaskOps ops t))))
   \<and> (currentProgress t + delta < max 1 (targetProgress t) \<longrightarrow>
        \<not> completed_t (progressSubTask delta t))
   \<and> (currentProgress t + delta = max 1 (targetProgress t) \<longrightarrow>
        completed_t (progressSubTask delta t) \<and>
        currentProgress (progressSubTask delta t) = max 1 (targetProgress t))"
  using runSubTaskOps_inv [of ops t]
  by (auto simp: progressSubTask_def Let_def)

theorem subTask_completed_iff_witness:
  "[Progress 1, Progress 1] \<noteq> [] \<and>
   currentProgress (runSubTaskOps [Progress 1, Progress 1] t0) = 4 \<and>
   completed_t (runSubTaskOps [Progress 1, Progress 1] t0) \<and>
   currentProgress (runSubTaskOps [Progress 1, Progress 1] t0) + (- 1) < max 1 (targetProgress (runSubTaskOps [Progress 1, Progress 1] t0)) \<and>
   \<not> completed_t (progressSubTask (- 1) (runSubTaskOps [Progress 1, Progress 1] t0))"
proof -
  have c: "currentProgress (runSubTaskOps [Progress 1, Progress 1] t0) = 4"
    and g: "targetProgress (runSubTaskOps [Progress 1, Progress 1] t0) = 4"
    by (simp_all add: progressSubTask_def t0_def Let_def)
  from subTask_completed_iff [of "[Progress 1, Progress 1]" t0 0 ] c g
  have "completed_t (runSubTaskOps [Progress 1, Progress 1] t0)" by simp
  moreover from subTask_completed_iff [of "[]" "runSubTaskOps [Progress 1, Progress 1] t0" "- 1"] c g
  have "\<not> completed_t (progressSubTask (- 1) (runSubTaskOps [Progress 1, Progress 1] t0))" by simp
  ultimately show ?thesis using c g by simp
qed

subsection \<open>Bounds on progress\<close>

lemma Math_round_le: "x \<le> of_int n \<Longrightarrow> Math_round x \<le> n"
  unfolding Math_round_def by linarith

lemma sum_list_mono_le:
  "(\<forall>u \<in> set xs. f u \<le> (g u :: int)) \<Longrightarrow> sum_list (map f xs) \<le> sum_list (map g xs)"
  by (induction xs) (auto intro: add_mono)

lemma ratio_le_one:
  assumes "c \<le> t" and "0 < (t::int)"
  shows "fl (of_int c / of_int t) \<le> 1"
proof -
  have "(of_int c :: rat) \<le> of_int t" using assms(1) by (simp only: of_int_le_iff)
  with assms(2) have "(of_int c / of_int t :: rat) \<le> of_int 1" by simp
  from fl_le_int [OF this] show ?thesis by simp
qed

lemma percent_le_100:
  assumes "r \<le> 1"
  shows "Math_round (fl (r * 100)) \<le> 100"
proof -
  have "r * 100 \<le> of_int 100" using assms by simp
  from fl_le_int [OF this] have "fl (r * 100) \<le> of_int 100" by simp
  then show ?thesis by (rule Math_round_le)
qed

lemma bounded_goal:
  assumes b: "\<forall>u \<in> set (subTasks g). currentProgress u \<le> max 1 (targetProgress u)"
  shows "sum_list (map currentProgress (filter (\<lambda>t. \<not> deleted t) (subTasks g)))
           \<le> sum_list (map (\<lambda>t. max 1 (targetProgress t)) (filter (\<lambda>t. \<not> deleted t) (subTasks g)))"
    and "filter (\<lambda>t. \<not> deleted t) (subTasks g) \<noteq> [] \<Longrightarrow>
         fl (of_int (sum_list (map currentProgress (filter (\<lambda>t. \<not> deleted t) (subTasks g)))) /
             of_int (sum_list (map (\<lambda>t. max 1 (targetProgress t))
                                 (filter (\<lambda>t. \<not> deleted t) (subTasks g))))) \<le> 1"
    and "deadline g = None \<Longrightarrow> progressPct now g \<le> 100"
proof -
  let ?active = "filter (\<lambda>t. \<not> deleted t) (subTasks g)"
  from b have "\<forall>u \<in> set ?active. currentProgress u \<le> max 1 (targetProgress u)" by simp
  then show le: "sum_list (map currentProgress ?active)
                   \<le> sum_list (map (\<lambda>t. max 1 (targetProgress t)) ?active)"
    by (rule sum_list_mono_le)
  have pos: "0 < sum_list (map (\<lambda>t. max 1 (targetProgress t)) ?active)" if "?active \<noteq> []"
    using that totalTarget_pos_iff [of g] by (simp add: totalTarget_sum activeSubTasks_def)
  show r: "fl (of_int (sum_list (map currentProgress ?active)) /
               of_int (sum_list (map (\<lambda>t. max 1 (targetProgress t)) ?active))) \<le> 1"
    if "?active \<noteq> []"
    by (rule ratio_le_one [OF le pos [OF that]])
  show "progressPct now g \<le> 100" if nd: "deadline g = None"
  proof (cases "completed g \<or> \<not> totalTarget g > 0")
    case True
    then show ?thesis by (auto simp: progressPct_def)
  next
    case False
    then have tp: "totalTarget g > 0" and nc: "\<not> completed g" by auto
    then have "?active \<noteq> []" by (simp add: totalTarget_pos_iff activeSubTasks_def)
    from percent_le_100 [OF r [OF this]] tp nc nd show ?thesis
      by (simp add: progressPct_def truthy_def totalTarget_sum totalCurrent_sum
          activeSubTasks_def)
  qed
qed

lemma zero_le_max_one: "(0::int) \<le> max 1 x"
  by simp

lemma applyOp_subTasksBounded:
  "subTasksBounded s \<Longrightarrow> formBounded op \<Longrightarrow> subTasksBounded (applyOp op s)"
  by (cases op)
     (auto simp: subTasksBounded_def handler_defs partialOfGoalData_def spreadGoal_def
       orElse_def progressSubTask_def toggleSubTask_def Let_def zero_le_max_one)

lemma runOps_subTasksBounded:
  "subTasksBounded s \<Longrightarrow> \<forall>op \<in> set ops. formBounded op \<Longrightarrow> subTasksBounded (runOps ops s)"
  by (induction ops arbitrary: s) (simp_all add: applyOp_subTasksBounded)

text \<open>
  Claim C10, amended. A progress operation with any delta leaves the sub-task's
  \<open>currentProgress\<close> in \<open>[0, max(1, targetProgress)]\<close>. Consequently, for every goal
  reached from the first launch by a session whose form submissions (add, update) hand
  over sub-tasks with \<open>currentProgress\<close> at most \<open>max(1, targetProgress)\<close>: every
  sub-task keeps that bound, the summed \<open>currentProgress\<close> of the sub-tasks that are not
  deleted is at most their summed \<open>max(1, targetProgress)\<close>, the completion ratio is at
  most 1, and without a deadline the raw progress is at most 100.
\<close>

theorem progress_bounded:
  "0 \<le> currentProgress (progressSubTask delta t)
   \<and> currentProgress (progressSubTask delta t) \<le> max 1 (targetProgress (progressSubTask delta t))
   \<and> ((\<forall>op \<in> set ops. formBounded op) \<longrightarrow>
        (\<forall>g \<in> set (goals (runOps ops initialState)).
           (\<forall>u \<in> set (subTasks g). currentProgress u \<le> max 1 (targetProgress u))
           \<and> sum_list (map currentProgress (filter (\<lambda>t. \<not> deleted t) (subTasks g)))
               \<le> sum_list (map (\<lambda>t. max 1 (targetProgress t))
                              (filter (\<lambda>t. \<not> deleted t) (subTasks g)))
           \<and> (filter (\<lambda>t. \<not> deleted t) (subTasks g) \<noteq> [] \<longrightarrow>
                fl (of_int (sum_list (map currentProgress
                                        (filter (\<lambda>t. \<not> deleted t) (subTasks g)))) /
                    of_int (sum_list (map (\<lambda>t. max 1 (targetProgress t))
                                        (filter (\<lambda>t. \<not> deleted t) (subTasks g))))) \<le> 1)
           \<and> (deadline g = None \<longrightarrow> progressPct now g \<le> 100)))"
proof -
  have p1: "0 \<le> currentProgress (progressSubTask delta t)"
    by (simp add: progressSubTask_def Let_def)
  have p2: "currentProgress (progressSubTask delta t)
              \<le> max 1 (targetProgress (progressSubTask delta t))"
    by (simp add: progressSubTask_def Let_def)
  have p3: "(\<forall>u \<in> set (subTasks g). currentProgress u \<le> max 1 (targetProgress u))
           \<and> sum_list (map currentProgress (filter (\<lambda>t. \<not> deleted t) (subTasks g)))
               \<le> sum_list (map (\<lambda>t. max 1 (targetProgress t))
                              (filter (\<lambda>t. \<not> deleted t) (subTasks g)))
           \<and> (filter (\<lambda>t. \<not> deleted t) (subTasks g) \<noteq> [] \<longrightarrow>
                fl (of_int (sum_list (map currentProgress
                                        (filter (\<lambda>t. \<not> deleted t) (subTasks g)))) /
                    of_int (sum_list (map (\<lambda>t. max 1 (targetProgress t))
                                        (filter (\<lambda>t. \<not> deleted t) (subTasks g))))) \<le> 1)
           \<and> (deadline g = None \<longrightarrow> progressPct now g \<le> 100)"
    if f: "\<forall>op \<in> set ops. formBounded op" and g: "g \<in> set (goals (runOps ops initialState))"
    for g
  proof -
    have "subTasksBounded initialState" by (simp add: subTasksBounded_def initialState_def)
    from runOps_subTasksBounded [OF this f] g
    have b: "\<forall>u \<in> set (subTasks g). currentProgress u \<le> max 1 (targetProgress u)"
      by (simp add: subTasksBounded_def)
    from b bounded_goal(1) [OF b] bounded_goal(2) [OF b] bounded_goal(3) [OF b, of now]
    show ?thesis by blast
  qed
  from p1 p2 p3 show ?thesis by blast
qed

lemma s10_goals:
  "map (\<lambda>g. (deadline g, map (\<lambda>t. (id_t t, deleted t, currentProgress t, targetProgress t))
                              (subTasks g))) (goals s10)
     = [(None, [(''t1'', False, 3, 5)])]"
  by (simp add: s10_def ops10_def d10_def t5_def initialState_def handler_defs
      progressSubTask_def Let_def)

theorem progress_bounded_witness:
  "list_all formBounded ops10
   \<and> map (\<lambda>g. (deadline g, map (\<lambda>t. (id_t t, deleted t, currentProgress t, targetProgress t))
                                (subTasks g))) (goals (runOps ops10 initialState))
       = [(None, [(''t1'', False, 3, 5)])]
   \<and> list_all (\<lambda>g. progressPct 6000 g \<le> 100) (goals (runOps ops10 initialState))
   \<and> map (progressPct 6000) (goals (runOps ops10 initialState)) = [60]"
proof -
  have h: "\<forall>op \<in> set ops10. formBounded op"
    by (simp add: ops10_def d10_def t5_def)
  have v: "map (\<lambda>g. (deadline g, map (\<lambda>t. (id_t t, deleted t, currentProgress t, targetProgress t))
                                (subTasks g))) (goals (runOps ops10 initialState))
       = [(None, [(''t1'', False, 3, 5)])]"
    using s10_goals by (simp add: s10_def)
  then obtain g where g: "goals (runOps ops10 initialState) = [g]"
    and d: "deadline g = None" and nc: "subTasks g \<noteq> []"
    by auto
  from progress_bounded [of 1 t5 ops10 6000] h g d
  have le: "progressPct 6000 g \<le> 100" by simp
  have e: "\<lfloor>fl (fl (3 / 5) * 100) + 1 / 2\<rfloor> = 60" by code_simp
  have "map (\<lambda>g. (completed g, deadline g, totalCurrent g, totalTarget g))
          (goals (runOps ops10 initialState)) = [(False, None, 3, 5)]"
    by (simp add: ops10_def d10_def t5_def initialState_def handler_defs progressSubTask_def
        Let_def totalCurrent_def totalTarget_def activeSubTasks_def)
  with g have "progressPct 6000 g = 60"
    by (simp add: progressPct_def truthy_def Math_round_def e)
  with le g v h show ?thesis by (simp add: list_all_iff)
qed

text \<open>
  The bound does not hold for every goal: an edit in the form that lowers a target below
  the progress already made is stored as it is, and the raw progress is 150.
\<close>

theorem progress_above_100_counterexample:
  "map (\<lambda>g. (deadline g, completed g, totalCurrent g, totalTarget g, progressPct 6000 g))
     (goals (applyOp (UpdateGoal ''g1'' d10_edit 5000) s10)) = [(None, False, 3, 2, 150)]"
proof -
  have e: "\<lfloor>fl (fl (3 / 2) * 100) + 1 / 2\<rfloor> = 150" by code_simp
  have "map (\<lambda>g. (deadline g, completed g, totalCurrent g, totalTarget g))
          (goals (applyOp (UpdateGoal ''g1'' d10_edit 5000) s10)) = [(None, False, 3, 2)]"
    by (simp add: d10_edit_def s10_def ops10_def d10_def t5_def initialState_def handler_defs
        progressSubTask_def Let_def handleSubTaskChange_targetProgress_def partialOfGoalData_def
        spreadGoal_def orElse_def totalCurrent_def totalTarget_def activeSubTasks_def)
  then obtain g where g: "goals (applyOp (UpdateGoal ''g1'' d10_edit 5000) s10) = [g]"
    and f: "deadline g = None" "\<not> completed g" "totalCurrent g = 3" "totalTarget g = 2"
    by auto
  then have "progressPct 6000 g = 150"
    by (simp add: progressPct_def truthy_def Math_round_def e)
  with g f show ?thesis by simp
qed

subsection \<open>The interaction stamp\<close>

lemma handleUpdateGoal_stamps:
  "map lastInteractionAt (goals (handleUpdateGoal i u now s)) =
   map (\<lambda>g. if id_g g = i then now else lastInteractionAt g) (goals s)"
  by (simp add: handleUpdateGoal_def)

lemma handleTogglePinned_stamps:
  "map lastInteractionAt (goals (handleTogglePinned i now s)) =
   map (\<lambda>g. if id_g g = i then now else lastInteractionAt g) (goals s)"
  by (simp add: handleTogglePinned_def)

lemma handleToggleArchive_stamps:
  "map lastInteractionAt (goals (handleToggleArchive i now s)) =
   map (\<lambda>g. if id_g g = i then now else lastInteractionAt g) (goals s)"
  by (simp add: handleToggleArchive_def)

lemma handleToggleComplete_stamps:
  "map lastInteractionAt (goals (handleToggleComplete i now s)) =
   map (\<lambda>g. if id_g g = i then now else lastInteractionAt g) (goals s)"
  by (simp add: handleToggleComplete_def Let_def)

lemma handleToggleSubTask_stamps:
  "map lastInteractionAt (goals (handleToggleSubTask i ti now s)) =
   map (\<lambda>g. if id_g g = i then now else lastInteractionAt g) (goals s)"
  by (simp add: handleToggleSubTask_def)

lemma handleSubTaskProgress_stamps:
  "map lastInteractionAt (goals (handleSubTaskProgress i ti delta now s)) =
   map (\<lambda>g. if id_g g = i then now else lastInteractionAt g) (goals s)"
  by (simp add: handleSubTaskProgress_def)

lemma handleArchiveCategory_no_stamp:
  "map lastInteractionAt (goals (handleArchiveCategory a c s)) = map lastInteractionAt (goals s)"
  by (simp add: handleArchiveCategory_def)

text \<open>
  Claim C9. Field update, pin toggle, archive toggle, complete toggle, sub-task toggle and
  sub-task progress change all set \<open>lastInteractionAt\<close> of the goal they touch to the
  current time (the lemmas above). Archiving a category does not: here it archives a
  goal last touched at \<open>1000\<close> and leaves that time in place.
\<close>

theorem handleArchiveCategory_keeps_lastInteractionAt:
  "map (\<lambda>g. (area g, archived g, lastInteractionAt g))
     (goals (handleArchiveCategory ''Health'' True (initialState\<lparr>goals := [g0]\<rparr>)))
   = [(''Health'', True, 1000)]"
  by (simp add: handleArchiveCategory_def initialState_def g0_def)

subsection \<open>Completion, archival and the completion time\<close>

lemma applyOp_completedAt_iff: "completedAt_iff s \<Longrightarrow> completedAt_iff (applyOp op s)"
  by (cases op)
     (auto simp: completedAt_iff_def handler_defs partialOfGoalData_def spreadGoal_def
       orElse_def Let_def)

lemma runOps_completedAt_iff: "completedAt_iff s \<Longrightarrow> completedAt_iff (runOps ops s)"
  by (induction ops arbitrary: s) (simp_all add: applyOp_completedAt_iff)

lemma handleToggleComplete_flags:
  "map (\<lambda>g. (id_g g, completed g, archived g)) (goals (handleToggleComplete i now s))
     = map (\<lambda>g. if id_g g = i then (id_g g, \<not> completed g, \<not> completed g)
                 else (id_g g, completed g, archived g)) (goals s)"
  by (simp add: handleToggleComplete_def Let_def)

lemma applyOp_unarchived:
  assumes "g' \<in> set (goals (applyOp op s))" and "completed g'" and "\<not> archived g'"
  shows "\<exists>g \<in> set (goals s). id_g g = id_g g' \<and> completed g
            \<and> (\<not> archived g \<or> isArchiveToggleOf (id_g g) op)"
  using assms
  by (cases op)
     (auto simp: handler_defs partialOfGoalData_def spreadGoal_def orElse_def Let_def
       split: if_splits)

lemma runOps_unarchived:
  assumes "g' \<in> set (goals (runOps ops s))" and "completed g'" and "\<not> archived g'"
  shows "(\<exists>g \<in> set (goals s). id_g g = id_g g' \<and> completed g \<and> \<not> archived g)
         \<or> unarchivedWhileCompleted (id_g g') ops s"
  using assms
proof (induction ops arbitrary: s)
  case Nil
  then show ?case by auto
next
  case (Cons op ops)
  from Cons.prems have "g' \<in> set (goals (runOps ops (applyOp op s)))" by simp
  from Cons.IH [OF this Cons.prems(2,3)] show ?case
  proof
    assume "\<exists>g \<in> set (goals (applyOp op s)). id_g g = id_g g' \<and> completed g \<and> \<not> archived g"
    then obtain g1 where g1: "g1 \<in> set (goals (applyOp op s))" "id_g g1 = id_g g'"
      "completed g1" "\<not> archived g1" by blast
    from applyOp_unarchived [OF g1(1,3,4)] obtain g where g: "g \<in> set (goals s)"
      "id_g g = id_g g1" "completed g" "\<not> archived g \<or> isArchiveToggleOf (id_g g) op"
      by blast
    show ?thesis
    proof (cases "archived g")
      case False
      with g g1(2) show ?thesis by auto
    next
      case True
      with g g1(2) have "isArchiveToggleOf (id_g g') op
          \<and> (\<exists>g \<in> set (goals s). id_g g = id_g g' \<and> completed g \<and> archived g)"
        by auto
      then show ?thesis by simp
    qed
  next
    assume "unarchivedWhileCompleted (id_g g') ops (applyOp op s)"
    then show ?thesis by simp
  qed
qed

text \<open>
  Claim C4, amended. For every goal of a state reached from the first launch through the
  repository's operations, \<open>completedAt\<close> is set exactly when \<open>completed\<close> is true. The
  complete toggle gives the goal it touches the negated \<open>completed\<close> flag and sets
  \<open>archived\<close> to the same value: completing a goal archives it. After any one operation a
  goal is completed and not archived only if a goal of its id was completed before and
  either was not archived already or the operation is the archive toggle of that id.
  So a reachable goal is completed and not archived only if, at some step, the archive
  toggle was applied to its id while a goal of that id was completed and archived.
\<close>

theorem reachable_goal_invariants:
  "(\<forall>g \<in> set (goals (runOps ops initialState)). (completedAt g \<noteq> None) = completed g)
   \<and> map (\<lambda>g. (id_g g, completed g, archived g)) (goals (handleToggleComplete i now s))
       = map (\<lambda>g. if id_g g = i then (id_g g, \<not> completed g, \<not> completed g)
                   else (id_g g, completed g, archived g)) (goals s)
   \<and> (\<forall>g' \<in> set (goals (applyOp op s)). completed g' \<and> \<not> archived g' \<longrightarrow>
        (\<exists>g \<in> set (goals s). id_g g = id_g g' \<and> completed g
            \<and> (\<not> archived g \<or> isArchiveToggleOf (id_g g) op)))
   \<and> (\<forall>g \<in> set (goals (runOps ops initialState)). completed g \<and> \<not> archived g \<longrightarrow>
        unarchivedWhileCompleted (id_g g) ops initialState)"
proof (intro conjI ballI impI)
  fix g
  assume "g \<in> set (goals (runOps ops initialState))"
  moreover have "completedAt_iff initialState"
    by (simp add: completedAt_iff_def initialState_def)
  from runOps_completedAt_iff [OF this, of ops]
  have "completedAt_iff (runOps ops initialState)" .
  ultimately show "(completedAt g \<noteq> None) = completed g" by (simp add: completedAt_iff_def)
next
  show "map (\<lambda>g. (id_g g, completed g, archived g)) (goals (handleToggleComplete i now s))
       = map (\<lambda>g. if id_g g = i then (id_g g, \<not> completed g, \<not> completed g)
                   else (id_g g, completed g, archived g)) (goals s)"
    by (rule handleToggleComplete_flags)
next
  fix g'
  assume "g' \<in> set (goals (applyOp op s))" and "completed g' \<and> \<not> archived g'"
  then show "\<exists>g \<in> set (goals s). id_g g = id_g g' \<and> completed g
            \<and> (\<not> archived g \<or> isArchiveToggleOf (id_g g) op)"
    using applyOp_unarchived [of g' op s] by blast
next
  fix g
  assume "g \<in> set (goals (runOps ops initialState))" and "completed g \<and> \<not> archived g"
  then show "unarchivedWhileCompleted (id_g g) ops initialState"
    using runOps_unarchived [of g ops initialState] by (simp add: initialState_def)
qed

lemma s4b_flags:
  "map (\<lambda>g. (id_g g, completed g, archived g, completedAt g)) (goals (runOps s4b initialState))
     = [(''g2'', True, True, Some 5000), (''g1'', True, False, Some 2000)]"
  by (simp add: s4b_def s4_def d10_def initialState_def handler_defs Let_def)

theorem reachable_goal_invariants_witness:
  "map (\<lambda>g. (id_g g, completed g, archived g, completedAt g)) (goals (runOps s4b initialState))
     = [(''g2'', True, True, Some 5000), (''g1'', True, False, Some 2000)]
   \<and> unarchivedWhileCompleted ''g1'' s4b initialState
   \<and> \<not> unarchivedWhileCompleted ''g2'' s4b initialState
   \<and> list_all (\<lambda>g. (completedAt g \<noteq> None) = completed g) (goals (runOps s4b initialState))"
proof -
  from s4b_flags obtain g2 g1 where g: "goals (runOps s4b initialState) = [g2, g1]"
    and f: "id_g g1 = ''g1''" "completed g1" "\<not> archived g1" "id_g g2 = ''g2''"
    by auto
  from reachable_goal_invariants [of s4b "''g1''" 0 initialState "ToggleArchive ''g1'' 0"] g f
  have u: "unarchivedWhileCompleted ''g1'' s4b initialState"
    and c: "list_all (\<lambda>g. (completedAt g \<noteq> None) = completed g) (goals (runOps s4b initialState))"
    by (auto simp: list_all_iff)
  have n: "\<not> unarchivedWhileCompleted ''g2'' s4b initialState"
    by (simp add: s4b_def s4_def d10_def initialState_def handler_defs Let_def)
  from s4b_flags u n c show ?thesis by simp
qed

text \<open>
  The implication from \<open>completed\<close> to \<open>archived\<close> fails: the archive toggle on the
  completed goal brings it back among the active ones, still completed.
\<close>

theorem completed_not_archived_counterexample:
  "map (\<lambda>g. (completed g, archived g, completedAt g))
     (goals (runOps (s4 @ [ToggleArchive ''g1'' 3000]) initialState))
   = [(True, False, Some 2000)]"
  by (simp add: s4_def d10_def initialState_def handler_defs Let_def)

subsection \<open>Sorting with a comparator\<close>

lemma set_insort_cmp: "set (insort_cmp cmp x xs) = insert x (set xs)"
  by (induction xs) auto

lemma set_sort_cmp: "set (sort_cmp cmp xs) = set xs"
  unfolding sort_cmp_def by (induction xs) (simp_all add: set_insort_cmp)

lemma length_insort_cmp: "length (insort_cmp cmp x xs) = Suc (length xs)"
  by (induction xs) auto

lemma length_sort_cmp: "length (sort_cmp cmp xs) = length xs"
  unfolding sort_cmp_def by (induction xs) (simp_all add: length_insort_cmp)

lemma sorted_insort_cmp:
  assumes total: "\<And>a b. cmp a b \<le> 0 \<or> cmp b a \<le> 0"
    and trans: "\<And>a b c. cmp a b \<le> 0 \<Longrightarrow> cmp b c \<le> 0 \<Longrightarrow> cmp a c \<le> 0"
  shows "sorted_wrt (\<lambda>a b. cmp a b \<le> 0) xs \<Longrightarrow>
         sorted_wrt (\<lambda>a b. cmp a b \<le> 0) (insort_cmp cmp x xs)"
proof (induction xs)
  case Nil
  then show ?case by simp
next
  case (Cons y ys)
  show ?case
  proof (cases "cmp x y \<le> 0")
    case True
    with Cons.prems trans show ?thesis by auto
  next
    case False
    with total have "cmp y x \<le> 0" by blast
    with False Cons show ?thesis by (auto simp: set_insort_cmp)
  qed
qed

lemma sorted_sort_cmp:
  assumes total: "\<And>a b. cmp a b \<le> 0 \<or> cmp b a \<le> 0"
    and trans: "\<And>a b c. cmp a b \<le> 0 \<Longrightarrow> cmp b c \<le> 0 \<Longrightarrow> cmp a c \<le> 0"
  shows "sorted_wrt (\<lambda>a b. cmp a b \<le> 0) (sort_cmp cmp xs)"
  unfolding sort_cmp_def
  by (induction xs) (simp_all add: sorted_insort_cmp [OF total trans])

subsection \<open>Deadline alerts\<close>

lemma deadlineAlerts_concat: "deadlineAlerts now gs = concat (map (deadlineAlert now) gs)"
proof -
  have "foldl (\<lambda>newAlerts g. newAlerts @ deadlineAlert now g) acc gs
          = acc @ concat (map (deadlineAlert now) gs)" for acc
    by (induction gs arbitrary: acc) simp_all
  then show ?thesis by (simp add: deadlineAlerts_def)
qed

lemma deadlineAlert_cases:
  "deadlineAlert now g = [] \<or>
   (\<exists>a. deadlineAlert now g = [a] \<and> id_n a = ''deadline-'' @ id_g g \<and> type_n a = DEADLINE)"
  by (simp add: deadlineAlert_def Let_def)

text \<open>
  The rounded quotient \<open>daysLeft\<close> lies in the window exactly when the exact one does:
  \<open>1 / 2^27\<close> and \<open>3 + 1 / 2^27\<close> are doubles, and a millisecond is more than
  \<open>1 / 2^27\<close> of a day.
\<close>

lemma fl_days_window:
  "(0 < fl (of_int x / 86400000) \<and> fl (of_int x / 86400000) \<le> 3)
   \<longleftrightarrow> 0 < x \<and> x \<le> 3 * 86400000"
proof -
  have a: "fl (of_int x / 86400000) \<le> 0" if "x \<le> 0"
    using that by (intro fl_nonpos) (simp add: divide_le_0_iff)
  have b: "0 < fl (of_int x / 86400000)" if "0 < x"
  proof -
    have "(1::rat) \<le> of_int x" using that by simp
    then have "(of_int 1 :: rat) / 2 ^ 27 \<le> of_int x / 86400000"
      by (intro frac_le) simp_all
    from fl_ge_rep [OF this] have "(1::rat) / 2 ^ 27 \<le> fl (of_int x / 86400000)" by simp
    then show ?thesis by simp
  qed
  have c: "fl (of_int x / 86400000) \<le> 3" if "x \<le> 3 * 86400000"
  proof -
    have "(of_int x :: rat) \<le> of_int (3 * 86400000)" using that by (simp only: of_int_le_iff)
    then have "(of_int x :: rat) / 86400000 \<le> of_int 3" by simp
    from fl_le_int [OF this] show ?thesis by simp
  qed
  have d: "3 < fl (of_int x / 86400000)" if "3 * 86400000 < x"
  proof -
    have "3 * 86400000 + 1 \<le> x" using that by simp
    then have "(of_int (3 * 86400000 + 1) :: rat) \<le> of_int x" by (simp only: of_int_le_iff)
    then have "(259200001 :: rat) \<le> of_int x" by simp
    then have "(of_int 402653185 :: rat) / 2 ^ 27 \<le> of_int x / 86400000"
      by (simp add: divide_le_eq)
    from fl_ge_rep [OF this] have "(402653185 :: rat) / 2 ^ 27 \<le> fl (of_int x / 86400000)"
      by simp
    then show ?thesis by simp
  qed
  show ?thesis
  proof (cases "0 < x \<and> x \<le> 3 * 86400000")
    case True
    with b c show ?thesis by simp
  next
    case False
    then have "x \<le> 0 \<or> 3 * 86400000 < x" by auto
    with a d False show ?thesis by fastforce
  qed
qed

lemma deadlineAlert_nonempty_iff:
  assumes "\<not> completed g" "\<not> archived g" "deadline g = Some d" "0 \<le> now"
  shows "deadlineAlert now g \<noteq> [] \<longleftrightarrow> 0 < d - now \<and> d - now \<le> 3 * 86400000"
proof (cases "d = 0")
  case True
  with assms show ?thesis by (simp add: deadlineAlert_def truthy_def)
next
  case False
  with assms fl_days_window [of "d - now"] show ?thesis
    by (simp add: deadlineAlert_def Let_def truthy_def del: of_int_diff)
qed

lemma daysLeft_window:
  "(0 < (of_int (d - now) / 86400000 :: rat) \<and> (of_int (d - now) / 86400000 :: rat) \<le> 3)
   \<longleftrightarrow> 0 < d - now \<and> d - now \<le> 3 * 86400000"
proof -
  have "(of_int (d - now) / 86400000 :: rat) \<le> 3 \<longleftrightarrow> (of_int (d - now) :: rat) \<le> of_int (3 * 86400000)"
    by simp
  also have "\<dots> \<longleftrightarrow> d - now \<le> 3 * 86400000" by (rule of_int_le_iff)
  finally show ?thesis by simp
qed

lemma deadline_key_in_alerts:
  assumes "g \<in> set gs" "distinct (map id_g gs)"
  shows "(\<exists>a \<in> set (deadlineAlerts now gs). id_n a = ''deadline-'' @ id_g g)
         \<longleftrightarrow> deadlineAlert now g \<noteq> []"
proof
  assume "\<exists>a \<in> set (deadlineAlerts now gs). id_n a = ''deadline-'' @ id_g g"
  then obtain a g' where g': "g' \<in> set gs" and a: "a \<in> set (deadlineAlert now g')"
    and k: "id_n a = ''deadline-'' @ id_g g"
    by (auto simp: deadlineAlerts_concat)
  from a deadlineAlert_cases [of now g'] have "id_n a = ''deadline-'' @ id_g g'" by auto
  with k have "id_g g' = id_g g" by simp
  with g' assms have "g' = g" by (meson distinct_map inj_on_def)
  with a show "deadlineAlert now g \<noteq> []" by auto
next
  assume "deadlineAlert now g \<noteq> []"
  with deadlineAlert_cases [of now g] obtain a where "deadlineAlert now g = [a]"
    and "id_n a = ''deadline-'' @ id_g g" by auto
  moreover from this(1) have "a \<in> set (deadlineAlert now g)" by simp
  with assms(1) have "a \<in> set (deadlineAlerts now gs)"
    unfolding deadlineAlerts_concat by auto
  ultimately show "\<exists>a \<in> set (deadlineAlerts now gs). id_n a = ''deadline-'' @ id_g g"
    by blast
qed

lemma newAlerts_cases:
  assumes "newAlerts gc now gs = Inr alerts"
  shows "alerts = deadlineAlerts now gs \<or>
         (\<exists>g m. neglectedGoal gs = Some g \<and> now - lastInteractionAt g > fourDaysMs \<and>
                alerts = deadlineAlerts now gs @
                  [\<lparr>id_n = ''nudge-'' @ id_g g, type_n = NUDGE, title_n = ''A gentle nudge'',
                    message = m, timestamp = now\<rparr>])"
  using assms by (auto simp: newAlerts_def Let_def split: option.splits if_splits sum.splits)

lemma deadline_key_in_newAlerts:
  assumes "newAlerts gc now gs = Inr alerts"
  shows "(\<exists>a \<in> set alerts. id_n a = ''deadline-'' @ k)
         \<longleftrightarrow> (\<exists>a \<in> set (deadlineAlerts now gs). id_n a = ''deadline-'' @ k)"
  using newAlerts_cases [OF assms] by auto

text \<open>
  The deadline rule on the alerts the \<open>forEach\<close> collects, and on those of a scan whose
  nudge step does not fail: the key \<open>"deadline-" + goalId\<close> is there exactly when the
  days left are above 0 and at most 3.
\<close>

lemma deadline_alert_iff:
  assumes "g \<in> set gs" and "distinct (map id_g gs)"
    and "\<not> completed g" and "\<not> archived g" and "deadline g = Some d" and "0 \<le> now"
  shows "((\<exists>a \<in> set (deadlineAlerts now gs). id_n a = ''deadline-'' @ id_g g)
            \<longleftrightarrow> 0 < (of_int (d - now) / 86400000 :: rat) \<and> (of_int (d - now) / 86400000 :: rat) \<le> 3)
      \<and> (\<forall>alerts. newAlerts generateContent now gs = Inr alerts \<longrightarrow>
            ((\<exists>a \<in> set alerts. id_n a = ''deadline-'' @ id_g g)
              \<longleftrightarrow> 0 < (of_int (d - now) / 86400000 :: rat) \<and> (of_int (d - now) / 86400000 :: rat) \<le> 3))
      \<and> (d = now + 3 * 86400000 \<longrightarrow>
            (\<exists>a \<in> set (deadlineAlerts now gs). id_n a = ''deadline-'' @ id_g g))
      \<and> (d = now + 3 * 86400000 + 3600000 \<longrightarrow>
            \<not> (\<exists>a \<in> set (deadlineAlerts now gs). id_n a = ''deadline-'' @ id_g g))
      \<and> (d \<le> now \<longrightarrow>
            \<not> (\<exists>a \<in> set (deadlineAlerts now gs). id_n a = ''deadline-'' @ id_g g))"
proof -
  have main: "(\<exists>a \<in> set (deadlineAlerts now gs). id_n a = ''deadline-'' @ id_g g)
            \<longleftrightarrow> 0 < d - now \<and> d - now \<le> 3 * 86400000"
    using deadline_key_in_alerts [OF assms(1,2)] deadlineAlert_nonempty_iff [OF assms(3-6)]
    by simp
  have scan: "\<forall>alerts. newAlerts generateContent now gs = Inr alerts \<longrightarrow>
            ((\<exists>a \<in> set alerts. id_n a = ''deadline-'' @ id_g g)
              \<longleftrightarrow> 0 < d - now \<and> d - now \<le> 3 * 86400000)"
    using main deadline_key_in_newAlerts [of generateContent now gs _ "id_g g"] by blast
  have b1: "d = now + 3 * 86400000 \<longrightarrow>
            (\<exists>a \<in> set (deadlineAlerts now gs). id_n a = ''deadline-'' @ id_g g)"
    unfolding main by simp
  have b2: "d = now + 3 * 86400000 + 3600000 \<longrightarrow>
            \<not> (\<exists>a \<in> set (deadlineAlerts now gs). id_n a = ''deadline-'' @ id_g g)"
    unfolding main by simp
  have b3: "d \<le> now \<longrightarrow>
            \<not> (\<exists>a \<in> set (deadlineAlerts now gs). id_n a = ''deadline-'' @ id_g g)"
    unfolding main by simp
  show ?thesis
    unfolding daysLeft_window
    using main scan b1 b2 b3 by blast
qed

text \<open>
  A scan that runs to its end leaves the key in the notification list exactly when it
  was there before or the deadline lies in the window.
\<close>

lemma appendFresh_ids:
  "id_n ` set (notifications (appendFresh alerts st))
     = id_n ` set alerts \<union> id_n ` set (notifications st)"
  by (auto simp: appendFresh_def Let_def)

lemma checkSystems_deadline_key:
  assumes "checkSystems generateContent now gs st = Inr st'"
    and "g \<in> set gs" and "distinct (map id_g gs)"
    and "\<not> completed g" and "\<not> archived g" and "deadline g = Some d" and "0 \<le> now"
  shows "(\<exists>a \<in> set (notifications st'). id_n a = ''deadline-'' @ id_g g)
         \<longleftrightarrow> (\<exists>a \<in> set (notifications st). id_n a = ''deadline-'' @ id_g g)
              \<or> (0 < d - now \<and> d - now \<le> 3 * 86400000)"
proof -
  from assms(1) obtain alerts where n: "newAlerts generateContent now gs = Inr alerts"
    and st': "st' = (if length alerts > 0 then appendFresh alerts st else st)"
    by (auto simp: checkSystems_def split: sum.splits)
  have w: "(\<exists>a \<in> set alerts. id_n a = ''deadline-'' @ id_g g)
          \<longleftrightarrow> 0 < d - now \<and> d - now \<le> 3 * 86400000"
    using deadline_alert_iff [OF assms(2-7), of generateContent] n
    unfolding daysLeft_window by blast
  have "id_n ` set (notifications st') = id_n ` set alerts \<union> id_n ` set (notifications st)"
    unfolding st' by (cases alerts) (simp_all add: appendFresh_ids)
  moreover have mem: "(\<exists>a \<in> A. id_n a = k) \<longleftrightarrow> k \<in> id_n ` A"
    for A :: "AppNotification set" and k
    by auto
  ultimately have "(\<exists>a \<in> set (notifications st'). id_n a = ''deadline-'' @ id_g g)
        \<longleftrightarrow> (\<exists>a \<in> set alerts. id_n a = ''deadline-'' @ id_g g)
            \<or> (\<exists>a \<in> set (notifications st). id_n a = ''deadline-'' @ id_g g)"
    unfolding mem by simp
  with w show ?thesis by blast
qed

text \<open>
  Claim C5. The claim wants every scan to emit the alert keyed \<open>"deadline-" + goalId\<close>
  for a goal whose deadline is within three days. Here one goal is due in three days to
  the millisecond and another goal is the neglected one; the scan collects the alert,
  the advisory request for the nudge fails, and the scan ends before
  \<open>setNotifications\<close>: nothing is emitted.
\<close>

theorem deadline_alert_lost_when_nudge_fails:
  "\<not> completed g8 \<and> \<not> archived g8 \<and> deadline g8 = Some (1000000000 + 3 * 86400000)
   \<and> map id_n (deadlineAlerts 1000000000 [g8, g7]) = [''deadline-g8'', ''deadline-g7'']
   \<and> map_option id_g (neglectedGoal [g8, g7]) = Some ''g7''
   \<and> checkSystems failing 1000000000 [g8, g7] \<lparr>notifications = [], activeToast = None\<rparr>
       = Inl AdvisoryFailure"
  by (simp add: checkSystems_def newAlerts_def deadlineAlerts_def deadlineAlert_def
      neglectedGoal_def sort_cmp_def getFriendlyNudge_def failing_def fourDaysMs_def truthy_def
      g8_def g7_def Let_def fl_one fl_three)

lemma deadline_alert_appended_when_nudge_answers:
  "map_sum id (\<lambda>st. map id_n (notifications st))
     (checkSystems answering 1000000000 [g8, g7] \<lparr>notifications = [], activeToast = None\<rparr>)
   = Inr [''deadline-g8'', ''deadline-g7'', ''nudge-g7'']"
  by (simp add: checkSystems_def newAlerts_def deadlineAlerts_def deadlineAlert_def
      neglectedGoal_def sort_cmp_def getFriendlyNudge_def answering_def fourDaysMs_def truthy_def
      g8_def g7_def Let_def fl_one fl_three appendFresh_def trim_simps)

subsection \<open>Neglect nudge\<close>

lemma neglectedGoal_minimal:
  assumes "neglectedGoal gs = Some g"
  shows "g \<in> set gs \<and> \<not> completed g \<and> \<not> archived g \<and>
         (\<forall>g' \<in> set gs. \<not> completed g' \<and> \<not> archived g' \<longrightarrow>
            lastInteractionAt g \<le> lastInteractionAt g')"
proof -
  let ?cmp = "\<lambda>a b. lastInteractionAt a - lastInteractionAt b"
  let ?q = "filter (\<lambda>g. \<not> completed g \<and> \<not> archived g) gs"
  from assms obtain rest where eq: "sort_cmp ?cmp ?q = g # rest"
    by (auto simp: neglectedGoal_def split: list.splits)
  have "sorted_wrt (\<lambda>a b. ?cmp a b \<le> 0) (sort_cmp ?cmp ?q)"
    by (rule sorted_sort_cmp) auto
  with eq have le: "\<forall>z \<in> set rest. lastInteractionAt g \<le> lastInteractionAt z" by simp
  have mem: "set (g # rest) = set ?q" using set_sort_cmp [of ?cmp ?q] eq by simp
  then have "g \<in> set ?q" by auto
  moreover have "lastInteractionAt g \<le> lastInteractionAt g'" if "g' \<in> set ?q" for g'
  proof -
    from that mem have "g' = g \<or> g' \<in> set rest" by auto
    with le show ?thesis by auto
  qed
  ultimately show ?thesis by auto
qed

lemma deadlineAlert_type: "a \<in> set (deadlineAlert now g) \<Longrightarrow> type_n a = DEADLINE"
  by (auto simp: deadlineAlert_def Let_def split: if_splits)

lemma deadlineAlerts_type: "a \<in> set (deadlineAlerts now gs) \<Longrightarrow> type_n a = DEADLINE"
  unfolding deadlineAlerts_concat by (auto dest: deadlineAlert_type)

lemma filter_nudge_deadlineAlerts:
  "filter (\<lambda>a. type_n a = NUDGE) (deadlineAlerts now gs) = []"
  by (auto simp: filter_empty_conv dest: deadlineAlerts_type)

text \<open>
  Claim C6. The alerts of a scan hold at most one nudge; a nudge is keyed
  \<open>"nudge-" + goalId\<close> for a goal that is neither completed nor archived, whose
  \<open>lastInteractionAt\<close> is minimal among such goals and lies more than four days back;
  and there is no nudge when no such goal lies more than four days back.
\<close>

theorem nudge_rule:
  assumes "newAlerts generateContent now gs = Inr alerts"
  shows "length (filter (\<lambda>a. type_n a = NUDGE) alerts) \<le> 1
     \<and> (\<forall>a \<in> set alerts. type_n a = NUDGE \<longrightarrow>
          (\<exists>g \<in> set gs. \<not> completed g \<and> \<not> archived g
             \<and> (\<forall>g' \<in> set gs. \<not> completed g' \<and> \<not> archived g' \<longrightarrow>
                   lastInteractionAt g \<le> lastInteractionAt g')
             \<and> now - lastInteractionAt g > 4 * 24 * 60 * 60 * 1000
             \<and> id_n a = ''nudge-'' @ id_g g))
     \<and> ((\<forall>g \<in> set gs. \<not> completed g \<and> \<not> archived g \<longrightarrow>
            now - lastInteractionAt g \<le> 4 * 24 * 60 * 60 * 1000)
          \<longrightarrow> (\<forall>a \<in> set alerts. type_n a \<noteq> NUDGE))"
proof -
  have only: "\<forall>a \<in> set alerts. type_n a = NUDGE \<longrightarrow>
          (\<exists>g \<in> set gs. \<not> completed g \<and> \<not> archived g
             \<and> (\<forall>g' \<in> set gs. \<not> completed g' \<and> \<not> archived g' \<longrightarrow>
                   lastInteractionAt g \<le> lastInteractionAt g')
             \<and> now - lastInteractionAt g > 4 * 24 * 60 * 60 * 1000
             \<and> id_n a = ''nudge-'' @ id_g g)"
    and one: "length (filter (\<lambda>a. type_n a = NUDGE) alerts) \<le> 1"
  proof -
    from newAlerts_cases [OF assms] consider
      (none) "alerts = deadlineAlerts now gs"
    | (nudge) g m where "neglectedGoal gs = Some g" "now - lastInteractionAt g > fourDaysMs"
        "alerts = deadlineAlerts now gs @
                  [\<lparr>id_n = ''nudge-'' @ id_g g, type_n = NUDGE, title_n = ''A gentle nudge'',
                    message = m, timestamp = now\<rparr>]"
      by blast
    then have "(\<forall>a \<in> set alerts. type_n a = NUDGE \<longrightarrow>
          (\<exists>g \<in> set gs. \<not> completed g \<and> \<not> archived g
             \<and> (\<forall>g' \<in> set gs. \<not> completed g' \<and> \<not> archived g' \<longrightarrow>
                   lastInteractionAt g \<le> lastInteractionAt g')
             \<and> now - lastInteractionAt g > 4 * 24 * 60 * 60 * 1000
             \<and> id_n a = ''nudge-'' @ id_g g))
        \<and> length (filter (\<lambda>a. type_n a = NUDGE) alerts) \<le> 1"
    proof cases
      case none
      then show ?thesis
        using deadlineAlerts_type [of _ now gs] by (auto simp: filter_nudge_deadlineAlerts)
    next
      case nudge
      from neglectedGoal_minimal [OF nudge(1)] nudge(2)
      have g: "g \<in> set gs \<and> \<not> completed g \<and> \<not> archived g
             \<and> (\<forall>g' \<in> set gs. \<not> completed g' \<and> \<not> archived g' \<longrightarrow>
                   lastInteractionAt g \<le> lastInteractionAt g')
             \<and> now - lastInteractionAt g > 4 * 24 * 60 * 60 * 1000"
        by (simp add: fourDaysMs_def)
      have len: "length (filter (\<lambda>a. type_n a = NUDGE) alerts) \<le> 1"
        unfolding nudge(3) by (simp add: filter_nudge_deadlineAlerts)
      have "\<exists>g \<in> set gs. \<not> completed g \<and> \<not> archived g
             \<and> (\<forall>g' \<in> set gs. \<not> completed g' \<and> \<not> archived g' \<longrightarrow>
                   lastInteractionAt g \<le> lastInteractionAt g')
             \<and> now - lastInteractionAt g > 4 * 24 * 60 * 60 * 1000
             \<and> id_n a = ''nudge-'' @ id_g g"
        if "a \<in> set alerts" "type_n a = NUDGE" for a
      proof -
        from that nudge(3) deadlineAlerts_type [of a now gs]
        have "id_n a = ''nudge-'' @ id_g g" by auto
        with g show ?thesis by blast
      qed
      with len show ?thesis by blast
    qed
    then show "\<forall>a \<in> set alerts. type_n a = NUDGE \<longrightarrow>
          (\<exists>g \<in> set gs. \<not> completed g \<and> \<not> archived g
             \<and> (\<forall>g' \<in> set gs. \<not> completed g' \<and> \<not> archived g' \<longrightarrow>
                   lastInteractionAt g \<le> lastInteractionAt g')
             \<and> now - lastInteractionAt g > 4 * 24 * 60 * 60 * 1000
             \<and> id_n a = ''nudge-'' @ id_g g)"
      and "length (filter (\<lambda>a. type_n a = NUDGE) alerts) \<le> 1" by blast+
  qed
  have "\<forall>a \<in> set alerts. type_n a \<noteq> NUDGE"
    if "\<forall>g \<in> set gs. \<not> completed g \<and> \<not> archived g \<longrightarrow>
            now - lastInteractionAt g \<le> 4 * 24 * 60 * 60 * 1000"
    using only that by fastforce
  with only one show ?thesis by blast
qed

lemma newAlerts_g7:
  "newAlerts answering 1000000000 [g7] =
     Inr [\<lparr>id_n = ''deadline-g7'', type_n = DEADLINE, title_n = ''Deadline approaching'',
           message = ''Your goal '' @ [CHR 0x22] @ ''Taxes'' @ [CHR 0x22]
                     @ '' ends soon. Take a small step today!'',
           timestamp = 1000000000\<rparr>,
          \<lparr>id_n = ''nudge-g7'', type_n = NUDGE, title_n = ''A gentle nudge'',
           message = ''One tiny step is enough.'', timestamp = 1000000000\<rparr>]"
  by (simp add: newAlerts_def deadlineAlerts_def deadlineAlert_def neglectedGoal_def sort_cmp_def
      getFriendlyNudge_def answering_def trim_simps fourDaysMs_def truthy_def g7_def Let_def
      fl_one)

theorem nudge_rule_witness:
  "(\<exists>alerts. newAlerts answering 1000000000 [g7] = Inr alerts
      \<and> map id_n alerts = [''deadline-g7'', ''nudge-g7'']
      \<and> length (filter (\<lambda>a. type_n a = NUDGE) alerts) \<le> 1)"
  using nudge_rule [OF newAlerts_g7] newAlerts_g7 by simp

text \<open>
  Claim C7. When the advisory request for the nudge fails, the claim wants the scan to
  go on without the nudge and still append its deadline alerts. The code awaits the
  request unguarded: the scan ends with the failure, before \<open>setNotifications\<close>, and
  the deadline alert it had collected is not appended.
\<close>

theorem nudge_failure_drops_alerts:
  "map id_n (deadlineAlerts 1000000000 [g7]) = [''deadline-g7'']
   \<and> checkSystems failing 1000000000 [g7] \<lparr>notifications = [], activeToast = None\<rparr>
       = Inl AdvisoryFailure"
  by (simp add: checkSystems_def newAlerts_def deadlineAlerts_def deadlineAlert_def neglectedGoal_def
      sort_cmp_def getFriendlyNudge_def failing_def fourDaysMs_def truthy_def g7_def Let_def
      fl_one)

lemma nudge_success_appends_alerts:
  "map_sum id (\<lambda>st. map id_n (notifications st))
     (checkSystems answering 1000000000 [g7] \<lparr>notifications = [], activeToast = None\<rparr>)
   = Inr [''deadline-g7'', ''nudge-g7'']"
  by (simp add: checkSystems_def newAlerts_g7 appendFresh_def Let_def)

subsection \<open>The comparator is a consistent ordering\<close>

lemma deadlineDiff_total: "deadlineDiff a b \<le> 0 \<or> deadlineDiff b a \<le> 0"
  by (auto simp: deadlineDiff_def split: option.splits)

lemma deadlineDiff_trans:
  "deadlineDiff a b \<le> 0 \<Longrightarrow> deadlineDiff b c \<le> 0 \<Longrightarrow> deadlineDiff a c \<le> 0"
  by (auto simp: deadlineDiff_def split: option.splits if_splits)

lemma compareGoals_total:
  "compareGoals activeSort sortBy a b \<le> 0 \<or> compareGoals activeSort sortBy b a \<le> 0"
  using deadlineDiff_total [of a b]
  by (cases sortBy; cases activeSort) (auto simp: compareGoals_def)

lemma compareGoals_trans:
  assumes "compareGoals activeSort sortBy a b \<le> 0" and "compareGoals activeSort sortBy b c \<le> 0"
  shows "compareGoals activeSort sortBy a c \<le> 0"
proof (cases sortBy)
  case Deadline
  with assms deadlineDiff_trans [of a b c] show ?thesis
    by (cases activeSort) (auto simp: compareGoals_def split: if_splits)
qed (use assms in \<open>cases activeSort; auto simp: compareGoals_def split: if_splits\<close>)+

lemma compareGoals_antisym:
  "compareGoals activeSort sortBy a b < 0 \<longleftrightarrow> compareGoals activeSort sortBy b a > 0"
  by (cases sortBy; cases activeSort)
     (auto simp: compareGoals_def deadlineDiff_def split: option.splits)

lemma compareGoals_filter_first:
  "compareGoals (Some f) sortBy a b \<le> 0 \<Longrightarrow> matchFilter f b \<Longrightarrow> matchFilter f a"
  by (auto simp: compareGoals_def split: if_splits)

lemma compareGoals_reset:
  "compareGoals None Reset a b \<le> 0 \<longleftrightarrow>
     (\<not> completed a \<and> completed b) \<or>
     (completed a = completed b \<and>
        ((pinned a \<and> \<not> pinned b) \<or> (pinned a = pinned b \<and> order_g a \<le> order_g b)))"
  by (auto simp: compareGoals_def)


subsection \<open>Buckets\<close>

lemma emptyBuckets_apply:
  "emptyBuckets ao a = (if a \<in> set ao then Some [] else None)"
proof -
  have "foldl (\<lambda>acc ar. acc(ar \<mapsto> [])) m ao a
          = (if a \<in> set ao then Some [] else m a)" for m :: "string \<rightharpoonup> Goal list"
    by (induction ao arbitrary: m) auto
  then show ?thesis by (simp add: emptyBuckets_def)
qed

lemma pushGoal_dom:
  "pushGoal lc q grouped g = Inr grouped' \<Longrightarrow> (grouped' a = None) = (grouped a = None)"
  by (auto simp: pushGoal_def split: if_splits option.splits)

lemma pushGoal_Inl: "pushGoal lc q grouped g = Inl e \<Longrightarrow> crashes lc q grouped g"
  by (auto simp: pushGoal_def crashes_def split: if_splits option.splits)

lemma pushGoals_char:
  "pushGoals lc q grouped gs =
     (if \<exists>g \<in> set gs. crashes lc q grouped g then Inl TypeError
      else Inr (\<lambda>a. case grouped a of None \<Rightarrow> None
                  | Some b \<Rightarrow> Some (b @ filter (\<lambda>g. matchesQuery lc q g \<and> area g = a) gs)))"
proof (induction gs arbitrary: grouped)
  case Nil
  show ?case by (auto split: option.splits)
next
  case (Cons g gs)
  show ?case
  proof (cases "crashes lc q grouped g")
    case True
    then show ?thesis by (simp add: pushGoal_def crashes_def)
  next
    case False
    then obtain grouped' where p: "pushGoal lc q grouped g = Inr grouped'"
      using pushGoal_Inl [of lc q grouped g] by (cases "pushGoal lc q grouped g") auto
    have dom: "(grouped' a = None) = (grouped a = None)" for a
      by (rule pushGoal_dom [OF p])
    have cr: "crashes lc q grouped' h = crashes lc q grouped h" for h
      by (simp add: crashes_def dom)
    have val: "grouped' a = (case grouped a of None \<Rightarrow> None
                 | Some b \<Rightarrow> Some (b @ filter (\<lambda>g. matchesQuery lc q g \<and> area g = a) [g]))" for a
      using p by (auto simp: pushGoal_def split: if_splits option.splits)
    have fn: "(\<lambda>a. case grouped' a of None \<Rightarrow> None
                 | Some b \<Rightarrow> Some (b @ filter (\<lambda>g. matchesQuery lc q g \<and> area g = a) gs))
            = (\<lambda>a. case grouped a of None \<Rightarrow> None
                 | Some b \<Rightarrow> Some (b @ filter (\<lambda>g. matchesQuery lc q g \<and> area g = a) (g # gs)))"
      by (rule ext) (simp add: val split: option.splits)
    have "pushGoals lc q grouped (g # gs) = pushGoals lc q grouped' gs" by (simp add: p)
    also have "\<dots> = (if \<exists>h \<in> set gs. crashes lc q grouped h then Inl TypeError
      else Inr (\<lambda>a. case grouped' a of None \<Rightarrow> None
                  | Some b \<Rightarrow> Some (b @ filter (\<lambda>g. matchesQuery lc q g \<and> area g = a) gs)))"
      unfolding Cons.IH [of grouped'] by (simp add: cr)
    finally show ?thesis using False unfolding fn by simp
  qed
qed

lemma activeGoalsByArea_char:
  "activeGoalsByArea lc gs ao q f sb =
     (if \<exists>g \<in> set gs. \<not> archived g \<and> matchesQuery lc q g \<and> area g \<notin> set ao
                          \<and> area g \<in> set objectPrototypeKeys
      then Inl TypeError
      else Inr (\<lambda>a. if a \<in> set ao
                      then Some (sort_cmp (compareGoals f sb)
                                   (filter (\<lambda>g. \<not> archived g \<and> matchesQuery lc q g \<and> area g = a) gs))
                      else None))"
proof -
  have c: "(\<exists>g \<in> set (filter (\<lambda>g. \<not> archived g) gs). crashes lc q (emptyBuckets ao) g)
        \<longleftrightarrow> (\<exists>g \<in> set gs. \<not> archived g \<and> matchesQuery lc q g \<and> area g \<notin> set ao
                          \<and> area g \<in> set objectPrototypeKeys)"
    by (auto simp: crashes_def emptyBuckets_apply)
  have f: "filter (\<lambda>g. matchesQuery lc q g \<and> area g = a) (filter (\<lambda>g. \<not> archived g) gs)
         = filter (\<lambda>g. \<not> archived g \<and> matchesQuery lc q g \<and> area g = a) gs" for a
    by (simp add: conj_commute conj_left_commute)
  show ?thesis
    unfolding activeGoalsByArea_def pushGoals_char c
    by (auto simp: emptyBuckets_apply f intro!: ext)
qed


subsection \<open>The grouped view\<close>

lemma bucket_sorted:
  assumes "activeGoalsByArea lc gs ao q f sb = Inr grouped" and "grouped a = Some bucket"
  shows "sorted_wrt (\<lambda>x y. compareGoals f sb x y \<le> 0) bucket"
    and "a \<in> set ao"
    and "set bucket = {g \<in> set gs. \<not> archived g \<and> matchesQuery lc q g \<and> area g = a}"
    and "length bucket = length (filter (\<lambda>g. \<not> archived g \<and> matchesQuery lc q g \<and> area g = a) gs)"
proof -
  from assms have b: "a \<in> set ao \<and> bucket = sort_cmp (compareGoals f sb)
      (filter (\<lambda>g. \<not> archived g \<and> matchesQuery lc q g \<and> area g = a) gs)"
    by (auto simp: activeGoalsByArea_char split: if_splits)
  then show "a \<in> set ao" by simp
  from b show "sorted_wrt (\<lambda>x y. compareGoals f sb x y \<le> 0) bucket"
    using sorted_sort_cmp [of "compareGoals f sb", OF compareGoals_total compareGoals_trans]
    by simp
  from b show "set bucket = {g \<in> set gs. \<not> archived g \<and> matchesQuery lc q g \<and> area g = a}"
    by (auto simp: set_sort_cmp)
  from b show "length bucket = length (filter (\<lambda>g. \<not> archived g \<and> matchesQuery lc q g \<and> area g = a) gs)"
    by (simp add: length_sort_cmp)
qed

text \<open>
  Claim C3. With an active filter, in every bucket of the grouped view, under any search
  query and any sort mode, a goal that matches the filter stands before every goal that
  does not: if the goal at position \<open>i\<close> matches and the goal at position \<open>j\<close> does not,
  then \<open>i < j\<close>. With the filter \<open>priority = High\<close> and the sort \<open>Newest\<close> this puts
  each High goal before each goal of lower priority, whatever their creation times.
\<close>

theorem filter_pinning:
  assumes "activeGoalsByArea lc gs ao q (Some f) sb = Inr grouped" and "grouped a = Some bucket"
    and "i < length bucket" and "j < length bucket"
    and "matchFilter f (bucket ! i)" and "\<not> matchFilter f (bucket ! j)"
  shows "i < j"
proof (rule ccontr)
  assume "\<not> i < j"
  moreover from assms(5,6) have "i \<noteq> j" by auto
  ultimately have "j < i" by simp
  from sorted_wrt_nth_less [OF bucket_sorted(1) [OF assms(1,2)] this assms(3)]
  have "compareGoals (Some f) sb (bucket ! j) (bucket ! i) \<le> 0" .
  from compareGoals_filter_first [OF this assms(5)] have "matchFilter f (bucket ! j)" .
  with assms(6) show False by simp
qed

lemma grouped_high_low:
  "\<exists>grouped. activeGoalsByArea asciiLowerCase [g_low, g_high] [''Health''] [] (Some (ByPriority HIGH)) Newest
        = Inr grouped
      \<and> grouped ''Health'' = Some [g_high, g_low]"
  unfolding activeGoalsByArea_char
  by (simp add: g_low_def g_high_def g0_def matchesQuery_def
      objectPrototypeKeys_def sort_cmp_def compareGoals_def matchFilter_def)

theorem filter_pinning_witness:
  "(\<exists>grouped. activeGoalsByArea asciiLowerCase [g_low, g_high] [''Health''] [] (Some (ByPriority HIGH)) Newest
        = Inr grouped
      \<and> grouped ''Health'' = Some [g_high, g_low])
   \<and> createdAt g_high < createdAt g_low
   \<and> matchFilter (ByPriority HIGH) ([g_high, g_low] ! 0)
   \<and> \<not> matchFilter (ByPriority HIGH) ([g_high, g_low] ! 1)
   \<and> (0::nat) < 1"
proof -
  from grouped_high_low obtain grouped
    where v: "activeGoalsByArea asciiLowerCase [g_low, g_high] [''Health''] [] (Some (ByPriority HIGH)) Newest
                = Inr grouped"
      and b: "grouped ''Health'' = Some [g_high, g_low]" by blast
  have m: "matchFilter (ByPriority HIGH) ([g_high, g_low] ! 0)"
    "\<not> matchFilter (ByPriority HIGH) ([g_high, g_low] ! 1)"
    by (simp_all add: matchFilter_def g_high_def g_low_def)
  have c: "createdAt g_high < createdAt g_low" by (simp add: g_high_def g_low_def)
  from filter_pinning [OF v b _ _ m]
  have "(0::nat) < 1" by simp
  with grouped_high_low m c show ?thesis by simp
qed

text \<open>
  With no search, no filter and the sort \<open>Reset\<close> (manual), a view that is built has
  one bucket per area of \<open>areaOrder\<close>, holds every non-archived goal of those areas in
  its area's bucket and no other goal, and orders each bucket by completion, then pin,
  then \<open>order\<close>.
\<close>

lemma grouped_view_reset:
  assumes "activeGoalsByArea lc gs ao [] None Reset = Inr grouped"
  shows "dom grouped = set ao"
    and "\<And>g. g \<in> set gs \<Longrightarrow> \<not> archived g \<Longrightarrow> area g \<in> set ao \<Longrightarrow>
            \<exists>bucket. grouped (area g) = Some bucket \<and> g \<in> set bucket"
    and "\<And>a bucket g. grouped a = Some bucket \<Longrightarrow> g \<in> set bucket \<Longrightarrow>
            g \<in> set gs \<and> \<not> archived g \<and> area g = a \<and> a \<in> set ao"
    and "\<And>a bucket i j. grouped a = Some bucket \<Longrightarrow> i < j \<Longrightarrow> j < length bucket \<Longrightarrow>
            (completed (bucket ! i) \<longrightarrow> completed (bucket ! j))
            \<and> (completed (bucket ! i) = completed (bucket ! j) \<longrightarrow>
                  (pinned (bucket ! j) \<longrightarrow> pinned (bucket ! i))
                  \<and> (pinned (bucket ! i) = pinned (bucket ! j) \<longrightarrow>
                        order_g (bucket ! i) \<le> order_g (bucket ! j)))"
proof -
  from assms have g: "grouped = (\<lambda>a. if a \<in> set ao
                      then Some (sort_cmp (compareGoals None Reset)
                                   (filter (\<lambda>g. \<not> archived g \<and> matchesQuery lc [] g \<and> area g = a) gs))
                      else None)"
    by (auto simp: activeGoalsByArea_char split: if_splits)
  show "dom grouped = set ao" by (auto simp: g dom_def)
  show "\<exists>bucket. grouped (area g) = Some bucket \<and> g \<in> set bucket"
    if "g \<in> set gs" "\<not> archived g" "area g \<in> set ao" for g
    using that by (simp add: g set_sort_cmp matchesQuery_def)
  show "g \<in> set gs \<and> \<not> archived g \<and> area g = a \<and> a \<in> set ao"
    if "grouped a = Some bucket" "g \<in> set bucket" for a bucket g
    using bucket_sorted(2,3) [OF assms that(1)] that(2) by auto
  show "(completed (bucket ! i) \<longrightarrow> completed (bucket ! j))
            \<and> (completed (bucket ! i) = completed (bucket ! j) \<longrightarrow>
                  (pinned (bucket ! j) \<longrightarrow> pinned (bucket ! i))
                  \<and> (pinned (bucket ! i) = pinned (bucket ! j) \<longrightarrow>
                        order_g (bucket ! i) \<le> order_g (bucket ! j)))"
    if "grouped a = Some bucket" "i < j" "j < length bucket" for a bucket i j
  proof -
    from sorted_wrt_nth_less [OF bucket_sorted(1) [OF assms that(1)] that(2,3)]
    have "compareGoals None Reset (bucket ! i) (bucket ! j) \<le> 0" .
    then show ?thesis unfolding compareGoals_reset by auto
  qed
qed

lemma grouped_view_exists:
  assumes "\<forall>g \<in> set gs. \<not> archived g \<and> matchesQuery lc q g \<and> area g \<notin> set ao
             \<longrightarrow> area g \<notin> set objectPrototypeKeys"
  shows "\<exists>grouped. activeGoalsByArea lc gs ao q f sb = Inr grouped"
  using assms by (auto simp: activeGoalsByArea_char)

lemma s_ctor_state:
  "map (\<lambda>g. (id_g g, area g, archived g)) (goals s_ctor) = [(''g1'', ''constructor'', False)]
   \<and> areaOrder s_ctor = [''Health & Wellness'', ''Relationships'', ''Career & Finances'',
                        ''Personal Growth'', ''Fun & Travels'', ''Others'']"
  by (simp add: s_ctor_def d_ctor_def d10_def initialState_def handleWelcomeComplete_def
      handler_defs trim_simps)

text \<open>
  Claim C2. The claim wants a view for every goal collection, with the goals of unknown
  areas left out. A non-archived goal whose area is not in \<open>areaOrder\<close> but names a
  property inherited from \<open>Object.prototype\<close> passes \<open>if (grouped[goal.area])\<close>, and the
  \<open>push\<close> that follows throws: no view is built.
\<close>

theorem inherited_area_name_crashes:
  "map (\<lambda>g. (id_g g, area g, archived g)) (goals s_ctor) = [(''g1'', ''constructor'', False)]
   \<and> ''constructor'' \<notin> set (areaOrder s_ctor)
   \<and> activeGoalsByArea lc (goals s_ctor) (areaOrder s_ctor) [] None Reset = Inl TypeError"
proof -
  obtain g where g: "goals s_ctor = [g]" and a: "area g = ''constructor''" and n: "\<not> archived g"
    using s_ctor_state by auto
  have o: "''constructor'' \<notin> set (areaOrder s_ctor)" using s_ctor_state by simp
  have "activeGoalsByArea lc (goals s_ctor) (areaOrder s_ctor) [] None Reset = Inl TypeError"
    unfolding activeGoalsByArea_char g using a n o
    by (simp add: matchesQuery_def objectPrototypeKeys_def)
  with s_ctor_state o show ?thesis by simp
qed

end
